theory Spec2Isabelle
  imports Complex_Main
begin

section \<open>Python values, errors and results\<close>

text \<open>
  The module \<^verbatim>\<open>iqtools/tools.py\<close> is a collection of independent functions over
  strings, numbers and numpy arrays.  Every function is embedded as a HOL function that
  returns \<open>py_error + 'a\<close>: \<open>Inl\<close> is the exception the Python raises, \<open>Inr\<close> the
  value it returns.  Python floats and complex numbers are embedded as \<open>real\<close> and
  \<open>complex\<close>: the arithmetic of the model is exact, rounding is not part of it.
\<close>

datatype py_error =
    ValueError
  | IndexError
  | TypeError
  | UnboundLocalError
  | ZeroDivisionError
  | OverflowError
  | OtherError string

definition and_then :: "'e + 'a \<Rightarrow> ('a \<Rightarrow> 'e + 'b) \<Rightarrow> 'e + 'b" where
  "and_then r f = (case r of Inl e \<Rightarrow> Inl e | Inr v \<Rightarrow> f v)"

section \<open>Strings\<close>

text \<open>\<^verbatim>\<open>str.lower\<close> on the ASCII range: the letters A to Z move to a to z.\<close>

definition lower_char :: "char \<Rightarrow> char" where
  "lower_char c =
     (case map_of (zip ''ABCDEFGHIJKLMNOPQRSTUVWXYZ'' ''abcdefghijklmnopqrstuvwxyz'') c of
        Some d \<Rightarrow> d
      | None \<Rightarrow> c)"

definition lower :: "string \<Rightarrow> string" where
  "lower s = map lower_char s"

text \<open>\<^verbatim>\<open>str.rfind\<close> of a single character: the last index holding it, or -1.\<close>

fun rfind_from :: "char \<Rightarrow> string \<Rightarrow> int \<Rightarrow> int \<Rightarrow> int" where
  "rfind_from c [] i found = found"
| "rfind_from c (x # xs) i found = rfind_from c xs (i + 1) (if x = c then i else found)"

definition rfind :: "string \<Rightarrow> char \<Rightarrow> int" where
  "rfind p c = rfind_from c p 0 (-1)"

section \<open>get_iq_object: dispatch on the file extension\<close>

text \<open>
  \<^verbatim>\<open>os.path.splitext\<close> (the POSIX one: separator \<open>/\<close>, no alternative separator):
  the extension starts at the last dot after the last separator, unless the file name
  has only dots before it.
  \<^verbatim>\<open>
    sepIndex = p.rfind(sep)
    dotIndex = p.rfind(extsep)
    if dotIndex > sepIndex:
        filenameIndex = sepIndex + 1
        while filenameIndex < dotIndex:
            if p[filenameIndex:filenameIndex+1] != extsep:
                return p[:dotIndex], p[dotIndex:]
            filenameIndex += 1
    return p, p[:0]
  \<close>
\<close>

function splitext_loop :: "string \<Rightarrow> nat \<Rightarrow> nat \<Rightarrow> bool" where
  "splitext_loop p filenameIndex dotIndex =
     (if filenameIndex < dotIndex
      then (if take 1 (drop filenameIndex p) \<noteq> ''.'' then True
            else splitext_loop p (Suc filenameIndex) dotIndex)
      else False)"
  by pat_completeness auto
termination
  by (relation "measure (\<lambda>(p, i, d). d - i)") auto

definition splitext :: "string \<Rightarrow> string \<times> string" where
  "splitext p =
     (let sepIndex = rfind p (CHR ''/'');
          dotIndex = rfind p (CHR ''.'')
      in if dotIndex > sepIndex \<and> splitext_loop p (nat (sepIndex + 1)) (nat dotIndex)
         then (take (nat dotIndex) p, drop (nat dotIndex) p)
         else (p, []))"

text \<open>
  The data classes (\<^verbatim>\<open>CSVData\<close>, \<^verbatim>\<open>BINData\<close>, ...) live in sibling modules of
  the package.  The dispatcher only calls their constructors, so they are parameters of
  the model: each takes the file name (and the header's name) and returns an object or
  raises.
\<close>

record 'obj iq_classes =
  CSVData :: "string \<Rightarrow> py_error + 'obj"
  BINData :: "string \<Rightarrow> py_error + 'obj"
  WAVData :: "string \<Rightarrow> py_error + 'obj"
  IQTData :: "string \<Rightarrow> py_error + 'obj"
  TIQData :: "string \<Rightarrow> py_error + 'obj"
  TDMSData :: "string \<Rightarrow> py_error + 'obj"
  TCAPData :: "string \<Rightarrow> string \<Rightarrow> py_error + 'obj"
  XDATData :: "string \<Rightarrow> string \<Rightarrow> py_error + 'obj"

text \<open>
  One \<^verbatim>\<open>if\<close> block of the dispatcher: when the condition holds the constructor's
  object replaces \<open>iq_data\<close>, otherwise \<open>iq_data\<close> is kept.
\<close>

definition assign_if :: "bool \<Rightarrow> (py_error + 'obj) \<Rightarrow> 'obj option \<Rightarrow> py_error + 'obj option" where
  "assign_if c ctor iq_data = (if c then and_then ctor (\<lambda>obj. Inr (Some obj)) else Inr iq_data)"

text \<open>
  The last two blocks need the header's file name; \<^verbatim>\<open>not header_filename\<close> is true
  of \<open>None\<close> and of the empty string, and then the function returns \<open>None\<close> at once.
\<close>

definition falsy :: "string option \<Rightarrow> bool" where
  "falsy h = (case h of None \<Rightarrow> True | Some s \<Rightarrow> s = [])"

definition xdat_block ::
  "'obj iq_classes \<Rightarrow> string \<Rightarrow> string option \<Rightarrow> string \<Rightarrow> 'obj option
     \<Rightarrow> py_error + 'obj option" where
  "xdat_block cls filename header_filename e iq_data =
     (if e = ''.xdat'' then
        (case header_filename of
           None \<Rightarrow> Inr None
         | Some h \<Rightarrow>
             if h = [] then Inr None
             else and_then (XDATData cls filename h) (\<lambda>obj. Inr (Some obj)))
      else Inr iq_data)"

definition dat_block ::
  "'obj iq_classes \<Rightarrow> string \<Rightarrow> string option \<Rightarrow> string \<Rightarrow> 'obj option
     \<Rightarrow> py_error + 'obj option" where
  "dat_block cls filename header_filename e iq_data =
     (if e = ''.dat'' then
        (case header_filename of
           None \<Rightarrow> Inr None
         | Some h \<Rightarrow>
             if h = [] then Inr None
             else and_then (TCAPData cls filename h)
                    (\<lambda>obj. xdat_block cls filename header_filename e (Some obj)))
      else xdat_block cls filename header_filename e iq_data)"

definition get_iq_object ::
  "'obj iq_classes \<Rightarrow> string \<Rightarrow> string option \<Rightarrow> py_error + 'obj option" where
  "get_iq_object cls filename header_filename =
     (let file_extension = snd (splitext filename);
          e = lower file_extension
      in
      and_then (assign_if (e = ''.txt'' \<or> e = ''.csv'') (CSVData cls filename) None) (\<lambda>d.
      and_then (assign_if (e = ''.bin'') (BINData cls filename) d) (\<lambda>d.
      and_then (assign_if (e = ''.wav'') (WAVData cls filename) d) (\<lambda>d.
      and_then (assign_if (e = ''.iqt'') (IQTData cls filename) d) (\<lambda>d.
      and_then (assign_if (e = ''.iq'') (IQTData cls filename) d) (\<lambda>d.
      and_then (assign_if (e = ''.tiq'') (TIQData cls filename) d) (\<lambda>d.
      and_then (assign_if (e = ''.tdms'') (TDMSData cls filename) d) (\<lambda>d.
      dat_block cls filename header_filename e d))))))))"

text \<open>The extensions the dispatcher knows.\<close>

definition recognized :: "string set" where
  "recognized = {''.txt'', ''.csv'', ''.bin'', ''.wav'', ''.iqt'', ''.iq'', ''.tiq'',
                 ''.tdms'', ''.dat'', ''.xdat''}"

text \<open>A concrete choice of constructors, each returning the file's name as its object.\<close>

definition plain_classes :: "string iq_classes" where
  "plain_classes = \<lparr> CSVData = Inr, BINData = Inr, WAVData = Inr, IQTData = Inr,
     TIQData = Inr, TDMSData = Inr, TCAPData = (\<lambda>f h. Inr f), XDATData = (\<lambda>f h. Inr f) \<rparr>"

section \<open>More of Python's strings: split, replace, strip\<close>

text \<open>
  \<^verbatim>\<open>s.split(sep)\<close> for a separator of one character: the pieces between the
  separators, so one piece more than there are separators (the empty string gives one
  empty piece).
\<close>

fun split_on :: "char \<Rightarrow> string \<Rightarrow> string list" where
  "split_on sep [] = [[]]"
| "split_on sep (x # xs) =
     (if x = sep then [] # split_on sep xs
      else (case split_on sep xs of
              [] \<Rightarrow> [[x]]
            | w # ws \<Rightarrow> (x # w) # ws))"

text \<open>
  \<^verbatim>\<open>s.replace(old, new)\<close>: every occurrence of \<open>old\<close>, left to right and without
  overlap, becomes \<open>new\<close>.  (An empty \<open>old\<close> puts \<open>new\<close> before every character and
  at the end.)
\<close>

definition is_prefix :: "string \<Rightarrow> string \<Rightarrow> bool" where
  "is_prefix old s = (take (length old) s = old)"

function replace :: "string \<Rightarrow> string \<Rightarrow> string \<Rightarrow> string" where
  "replace old new s =
     (if old = [] then new @ concat (map (\<lambda>c. c # new) s)
      else if s = [] then []
      else if is_prefix old s then new @ replace old new (drop (length old) s)
      else hd s # replace old new (tl s))"
  by pat_completeness auto
termination
  by (relation "measure (\<lambda>(old, new, s). length s)") auto

declare replace.simps [simp del]

text \<open>
  \<^verbatim>\<open>s.strip()\<close> removes white space at both ends.  For a Python string the white
  space characters of the ASCII range are the space, the tab, the line feed, the vertical
  tab, the form feed, the carriage return and the four separators \<open>0x1C\<close> to \<open>0x1F\<close>.
  (The strings of the model are ASCII.)
\<close>

definition is_space :: "char \<Rightarrow> bool" where
  "is_space c =
     (c \<in> set [CHR '' '', CHR 0x09, CHR 0x0A, CHR 0x0B, CHR 0x0C, CHR 0x0D,
               CHR 0x1C, CHR 0x1D, CHR 0x1E, CHR 0x1F])"

definition strip :: "string \<Rightarrow> string" where
  "strip s = rev (dropWhile is_space (rev (dropWhile is_space s)))"

section \<open>Numbers from text: int() and float()\<close>

definition is_digit :: "char \<Rightarrow> bool" where
  "is_digit c = (c \<in> set ''0123456789'')"

definition digit_val :: "char \<Rightarrow> nat" where
  "digit_val c =
     (case map_of (zip ''0123456789'' [0, 1, 2, 3, 4, 5, 6, 7, 8, 9]) c of
        Some d \<Rightarrow> d
      | None \<Rightarrow> 0)"

definition nat_of_digits :: "string \<Rightarrow> nat" where
  "nat_of_digits ds = foldl (\<lambda>n c. 10 * n + digit_val c) 0 ds"

text \<open>
  Both \<^verbatim>\<open>int\<close> and \<^verbatim>\<open>float\<close> accept single underscores between digits.
  CPython checks them in one pass and drops them before it reads the number: an
  underscore must follow a digit, must be followed by a digit, and cannot be last
  (\<open>prev\<close> is the character before; it starts as the null character).
\<close>

fun drop_underscores :: "char \<Rightarrow> string \<Rightarrow> string option" where
  "drop_underscores prev [] = (if prev = CHR ''_'' then None else Some [])"
| "drop_underscores prev (p # ps) =
     (if p = CHR ''_'' then
        (if is_digit prev then drop_underscores p ps else None)
      else if prev = CHR ''_'' \<and> \<not> is_digit p then None
      else map_option ((#) p) (drop_underscores p ps))"

text \<open>An optional sign in front: the sign as a factor, and the rest.\<close>

definition take_sign :: "string \<Rightarrow> int \<times> string" where
  "take_sign s =
     (case s of
        [] \<Rightarrow> (1, [])
      | c # r \<Rightarrow> if c = CHR ''-'' then (-1, r) else if c = CHR ''+'' then (1, r) else (1, s))"

text \<open>
  \<^verbatim>\<open>int(s)\<close> in base 10: white space stripped, an optional sign, then digits.
\<close>

definition py_int :: "string \<Rightarrow> py_error + int" where
  "py_int s =
     (case drop_underscores (CHR 0x00) (strip s) of
        None \<Rightarrow> Inl ValueError
      | Some t \<Rightarrow>
          (let (sg, ds) = take_sign t in
           if ds \<noteq> [] \<and> list_all is_digit ds then Inr (sg * int (nat_of_digits ds))
           else Inl ValueError))"

text \<open>
  The exponent of a float literal: nothing, or \<open>e\<close>/\<open>E\<close>, an optional sign and digits.
\<close>

definition parse_exponent :: "string \<Rightarrow> int option" where
  "parse_exponent r =
     (case r of
        [] \<Rightarrow> Some 0
      | c # r' \<Rightarrow>
          if c = CHR ''e'' \<or> c = CHR ''E'' then
            (let (sg, ds) = take_sign r' in
             if ds \<noteq> [] \<and> list_all is_digit ds then Some (sg * int (nat_of_digits ds))
             else None)
          else None)"

text \<open>Ten to an integer power, as Python's float would hold it (here exactly).\<close>

definition pow10 :: "int \<Rightarrow> real" where
  "pow10 k = (if 0 \<le> k then 10 ^ nat k else 1 / 10 ^ nat (- k))"

text \<open>
  \<^verbatim>\<open>float(s)\<close>: white space stripped, underscores checked and dropped, an optional
  sign, then digits with an optional fraction (at least one digit in all) and an optional
  exponent; the whole text must be used up.  The value is the decimal number itself: the
  model does not round to a double.  Python also reads \<open>inf\<close>, \<open>infinity\<close> and \<open>nan\<close>;
  these have no real value and the model marks them with an error of their own.
\<close>

definition py_float :: "string \<Rightarrow> py_error + real" where
  "py_float s =
     (case drop_underscores (CHR 0x00) (strip s) of
        None \<Rightarrow> Inl ValueError
      | Some t \<Rightarrow>
          (let (sg, body) = take_sign t in
           if lower body \<in> set [''inf'', ''infinity'', ''nan'']
           then Inl (OtherError ''non-finite float'')
           else
             (let ip = takeWhile is_digit body;
                  r1 = dropWhile is_digit body;
                  has_dot = (r1 \<noteq> [] \<and> hd r1 = CHR ''.'');
                  fp = (if has_dot then takeWhile is_digit (tl r1) else []);
                  r2 = (if has_dot then dropWhile is_digit (tl r1) else r1)
              in if ip = [] \<and> fp = [] then Inl ValueError
                 else (case parse_exponent r2 of
                         None \<Rightarrow> Inl ValueError
                       | Some ex \<Rightarrow>
                           Inr (real_of_int sg * real (nat_of_digits (ip @ fp))
                                  / 10 ^ length fp * pow10 ex)))))"

section \<open>parse_filename\<close>

text \<open>
  \<^verbatim>\<open>
    filename = filename.split('_')
    descr = filename[0]
    energy = float(filename[1].replace('MeVu', 'e6'))
    current = float(filename[2].replace('uA', 'e-6'))
    return descr, energy, current
  \<close>
  Indexing a list past its length raises IndexError.
\<close>

definition item :: "'a list \<Rightarrow> nat \<Rightarrow> py_error + 'a" where
  "item xs i = (if i < length xs then Inr (xs ! i) else Inl IndexError)"

text \<open>
  A number as the file names write it: digits, and a fraction after a dot when there is
  one; and the value it stands for.
\<close>

definition numeral_text :: "string \<Rightarrow> string \<Rightarrow> string" where
  "numeral_text ip fp = (if fp = [] then ip else ip @ ''.'' @ fp)"

definition decimal_value :: "string \<Rightarrow> string \<Rightarrow> real" where
  "decimal_value ip fp = real (nat_of_digits (ip @ fp)) / 10 ^ length fp"

definition parse_filename :: "string \<Rightarrow> py_error + (string \<times> real \<times> real)" where
  "parse_filename filename =
     (let fields = split_on (CHR ''_'') filename in
      and_then (item fields 0) (\<lambda>descr.
      and_then (item fields 1) (\<lambda>f1.
      and_then (py_float (replace ''MeVu'' ''e6'' f1)) (\<lambda>energy.
      and_then (item fields 2) (\<lambda>f2.
      and_then (py_float (replace ''uA'' ''e-6'' f2)) (\<lambda>current.
      Inr (descr, energy, current)))))))"

section \<open>Numbers to text\<close>







section \<open>get_eng_notation\<close>





section \<open>numpy arrays and the discrete Fourier transform\<close>

text \<open>
  A one-dimensional array is a list.  A two-dimensional array is its shape and its
  cells in row-major order, as numpy stores a C-contiguous array.
\<close>

record 'a array2 =
  nrows :: nat
  ncols :: nat
  cells :: "'a list"

definition rows_of :: "'a array2 \<Rightarrow> 'a list list" where
  "rows_of a = map (\<lambda>i. take (ncols a) (drop (i * ncols a) (cells a))) [0..<nrows a]"

text \<open>
  \<^verbatim>\<open>np.reshape(x, (d0, d1))\<close> of a one-dimensional array.  Each dimension must fit
  numpy's index type (64 bits, signed).  A negative dimension is the unknown one (written
  \<open>-1\<close>): there may be one only, it is the size divided by the other dimension, and the
  other must not be zero and must divide the size.  With both dimensions given their
  product must be the size.
\<close>

definition intp_ok :: "int \<Rightarrow> bool" where
  "intp_ok d = (- (2 ^ 63) \<le> d \<and> d < 2 ^ 63)"

definition np_reshape :: "'a list \<Rightarrow> int \<Rightarrow> int \<Rightarrow> py_error + 'a array2" where
  "np_reshape x d0 d1 =
     (let sz = int (length x) in
      if \<not> intp_ok d0 \<or> \<not> intp_ok d1 then Inl OverflowError
      else if d0 < 0 \<and> d1 < 0 then Inl ValueError
      else if d0 < 0 then
        (if d1 = 0 \<or> sz mod d1 \<noteq> 0 then Inl ValueError
         else Inr \<lparr>nrows = nat (sz div d1), ncols = nat d1, cells = x\<rparr>)
      else if d1 < 0 then
        (if d0 = 0 \<or> sz mod d0 \<noteq> 0 then Inl ValueError
         else Inr \<lparr>nrows = nat d0, ncols = nat (sz div d0), cells = x\<rparr>)
      else if d0 * d1 \<noteq> sz then Inl ValueError
      else Inr \<lparr>nrows = nat d0, ncols = nat d1, cells = x\<rparr>)"

text \<open>
  The transform of one row, as numpy defines it:
  \<open>A\<^sub>k = \<Sum>\<^sub>m a\<^sub>m exp (-2\<pi>i mk/n)\<close>, and the inverse
  \<open>a\<^sub>m = (1/n) \<Sum>\<^sub>k A\<^sub>k exp (2\<pi>i mk/n)\<close>; \<open>cis t\<close> is \<open>exp (i t)\<close>.
\<close>

definition dft :: "complex list \<Rightarrow> complex list" where
  "dft a =
     map (\<lambda>k. \<Sum>m<length a. a ! m * cis (- (2 * pi * real m * real k / real (length a))))
       [0..<length a]"

definition idft :: "complex list \<Rightarrow> complex list" where
  "idft a =
     map (\<lambda>m. (\<Sum>k<length a. a ! k * cis (2 * pi * real m * real k / real (length a)))
               / of_nat (length a))
       [0..<length a]"

text \<open>
  \<^verbatim>\<open>np.fft.fft(x)\<close> and \<^verbatim>\<open>np.fft.ifft(x)\<close> of a one-dimensional array raise
  ValueError (invalid number of data points) on an empty one.
\<close>

definition np_fft :: "complex list \<Rightarrow> py_error + complex list" where
  "np_fft x = (if length x < 1 then Inl ValueError else Inr (dft x))"

definition np_ifft :: "complex list \<Rightarrow> py_error + complex list" where
  "np_ifft x = (if length x < 1 then Inl ValueError else Inr (idft x))"

text \<open>
  Along axis 1 of a two-dimensional array every row is transformed on its own; the
  number of columns is the number of data points and must be at least 1.
\<close>

definition np_fft_axis1 :: "complex array2 \<Rightarrow> py_error + complex array2" where
  "np_fft_axis1 a =
     (if ncols a < 1 then Inl ValueError
      else Inr (a\<lparr>cells := concat (map dft (rows_of a))\<rparr>))"

definition np_ifft_axis1 :: "complex array2 \<Rightarrow> py_error + complex array2" where
  "np_ifft_axis1 a =
     (if ncols a < 1 then Inl ValueError
      else Inr (a\<lparr>cells := concat (map idft (rows_of a))\<rparr>))"

section \<open>The spectrogram pair\<close>

text \<open>
  \<^verbatim>\<open>
    def get_cplx_spectrogram(x, nframes, lframes):
        sig = np.reshape(x, (nframes, lframes))
        zz = np.fft.fft(sig, axis=1)
        return zz

    def get_inv_cplx_spectrogram(zz, nframes, lframes):
        inv_zz = np.fft.ifft(zz, axis=1)
        inv_zz = np.reshape(inv_zz, (1, nframes * lframes))[0]
        return inv_zz
  \<close>
  Reshaping a two-dimensional array reads its cells in row-major order; the index
  \<open>[0]\<close> takes the first row.
\<close>

definition get_cplx_spectrogram :: "complex list \<Rightarrow> int \<Rightarrow> int \<Rightarrow> py_error + complex array2" where
  "get_cplx_spectrogram x nframes lframes =
     and_then (np_reshape x nframes lframes) (\<lambda>sig. np_fft_axis1 sig)"

definition first_row :: "'a array2 \<Rightarrow> py_error + 'a list" where
  "first_row a = (if nrows a < 1 then Inl IndexError else Inr (take (ncols a) (cells a)))"

definition get_inv_cplx_spectrogram :: "complex array2 \<Rightarrow> int \<Rightarrow> int \<Rightarrow> py_error + complex list" where
  "get_inv_cplx_spectrogram zz nframes lframes =
     and_then (np_ifft_axis1 zz) (\<lambda>inv_zz.
     and_then (np_reshape (cells inv_zz) 1 (nframes * lframes)) (\<lambda>r. first_row r))"

text \<open>Forward and back again.\<close>

definition round_trip :: "complex list \<Rightarrow> int \<Rightarrow> int \<Rightarrow> py_error + complex list" where
  "round_trip x n l =
     and_then (get_cplx_spectrogram x n l) (\<lambda>zz. get_inv_cplx_spectrogram zz n l)"

section \<open>make_test_signal\<close>


text \<open>Adding two arrays of one length, element by element.\<close>

definition add_arrays :: "real list \<Rightarrow> real list \<Rightarrow> real list" where
  "add_arrays x y = map2 (+) x y"

text \<open>
  \<^verbatim>\<open>
    def make_test_signal(f, fs, length=1, nharm=0, noise=False):
        t = np.arange(0, length, 1 / fs)
        x = np.zeros(len(t))
        for i in range(nharm + 2):
            x += np.sin(2 * np.pi * i * f * t)
        if noise:
            x += np.random.normal(0, 1, len(t))
        return t, x
  \<close>
  \<^verbatim>\<open>range(nharm + 2)\<close> runs through \<open>0, 1, ..., nharm + 1\<close> and is empty when
  \<open>nharm + 2\<close> is not positive.  The random samples are an input of the model:
  \<open>noise\<close> is \<open>None\<close> for \<^verbatim>\<open>noise=False\<close>, and otherwise gives the sample drawn
  for each index.  Dividing by a sampling rate of zero raises ZeroDivisionError.
\<close>

definition harmonic :: "real \<Rightarrow> real list \<Rightarrow> nat \<Rightarrow> real list" where
  "harmonic f t i = map (\<lambda>tj. sin (2 * pi * real i * f * tj)) t"


section \<open>shift_phase\<close>

text \<open>
  \<^verbatim>\<open>np.unwrap(p)\<close> with its defaults (period \<open>2\<pi>\<close>, discontinuity \<open>\<pi>\<close>):
  \<^verbatim>\<open>
    dd = diff(p)
    ddmod = mod(dd + pi, 2*pi) - pi
    copyto(ddmod, pi, where=(ddmod == -pi) & (dd > 0))
    ph_correct = ddmod - dd
    copyto(ph_correct, 0, where=abs(dd) < pi)
    up[1:] = p[1:] + ph_correct.cumsum()
  \<close>
  where \<open>mod\<close> is the floored remainder.
\<close>

definition np_diff :: "real list \<Rightarrow> real list" where
  "np_diff p = map (\<lambda>i. p ! Suc i - p ! i) [0..<length p - 1]"

definition np_mod :: "real \<Rightarrow> real \<Rightarrow> real" where
  "np_mod a b = a - b * of_int \<lfloor>a / b\<rfloor>"

definition ph_correct :: "real \<Rightarrow> real" where
  "ph_correct dd =
     (let ddmod0 = np_mod (dd + pi) (2 * pi) - pi;
          ddmod = (if ddmod0 = - pi \<and> dd > 0 then pi else ddmod0)
      in if \<bar>dd\<bar> < pi then 0 else ddmod - dd)"

fun cumsum_from :: "real \<Rightarrow> real list \<Rightarrow> real list" where
  "cumsum_from acc [] = []"
| "cumsum_from acc (v # vs) = (acc + v) # cumsum_from (acc + v) vs"

definition np_unwrap :: "real list \<Rightarrow> real list" where
  "np_unwrap p =
     (case p of
        [] \<Rightarrow> []
      | p0 # rest \<Rightarrow> p0 # map2 (+) rest (cumsum_from 0 (map ph_correct (np_diff p))))"

text \<open>An angle that is a whole number of turns.\<close>

definition whole_turns :: "real \<Rightarrow> bool" where
  "whole_turns t = (\<exists>k::int. t = 2 * pi * of_int k)"

text \<open>
  \<^verbatim>\<open>
    def shift_phase(x, phase):
        XX = np.fft.fft(x)
        angle = np.unwrap(np.angle(XX)) + phase
        YY = np.abs(XX) * np.exp(1j * angle)
        return np.fft.ifft(YY)
  \<close>
  \<^verbatim>\<open>np.angle\<close> is the argument in \<open>(-\<pi>, \<pi>]\<close>, and 0 for the number 0.
\<close>

definition shift_phase :: "complex list \<Rightarrow> real \<Rightarrow> py_error + complex list" where
  "shift_phase x phase =
     and_then (np_fft x) (\<lambda>XX.
       (let angle = map (\<lambda>a. a + phase) (np_unwrap (map Arg XX));
            YY = map2 (\<lambda>m a. of_real m * exp (\<i> * of_real a)) (map cmod XX) angle
        in np_ifft YY))"

section \<open>read_specan_xml\<close>

text \<open>
  The reader parses the file with \<^verbatim>\<open>xml.etree.ElementTree.fromstring\<close> and works on the
  tree it returns; the model starts from that tree.  An element has a tag, the text
  before its first child (\<open>None\<close> when there is none) and its children.
  \<^verbatim>\<open>root.iter(tag)\<close> walks the tree in document order, the root first, and yields the
  elements with that tag.
\<close>

datatype element = Element (el_tag: string) (el_text: "string option") (el_children: "element list")

fun iter_all :: "element \<Rightarrow> element list" where
  "iter_all (Element tg tx cs) = Element tg tx cs # concat (map iter_all cs)"

definition iter :: "element \<Rightarrow> string \<Rightarrow> element list" where
  "iter doc tg = filter (\<lambda>e. el_tag e = tg) (iter_all doc)"

text \<open>
  \<^verbatim>\<open>int(elem.text)\<close> and \<^verbatim>\<open>float(elem.text)\<close> raise TypeError when the element has no
  text; \<^verbatim>\<open>elem.text\<close> alone is taken as it is.
\<close>

definition int_of_text :: "string option \<Rightarrow> py_error + int" where
  "int_of_text tx = (case tx of None \<Rightarrow> Inl TypeError | Some s \<Rightarrow> py_int s)"

definition float_of_text :: "string option \<Rightarrow> py_error + real" where
  "float_of_text tx = (case tx of None \<Rightarrow> Inl TypeError | Some s \<Rightarrow> py_float s)"

definition text_itself :: "string option \<Rightarrow> py_error + string option" where
  "text_itself tx = Inr tx"

text \<open>
  A loop \<^verbatim>\<open>for elem in root.iter(tag): var = read(elem.text)\<close>: the variable ends with
  the value of the last element, stays unbound (\<open>None\<close>) when there is no element, and
  the first text that cannot be read raises.
\<close>

fun last_read :: "(string option \<Rightarrow> py_error + 'a) \<Rightarrow> element list \<Rightarrow> 'a option \<Rightarrow> py_error + 'a option" where
  "last_read rd [] cur = Inr cur"
| "last_read rd (e # es) cur = and_then (rd (el_text e)) (\<lambda>v. last_read rd es (Some v))"

text \<open>Reading a local variable that no loop has bound raises UnboundLocalError.\<close>

definition bound :: "'a option \<Rightarrow> py_error + 'a" where
  "bound v = (case v of None \<Rightarrow> Inl UnboundLocalError | Some x \<Rightarrow> Inr x)"

text \<open>\<^verbatim>\<open>np.zeros(count)\<close> raises ValueError for a negative count.\<close>

definition np_zeros :: "int \<Rightarrow> py_error + real list" where
  "np_zeros count = (if count < 0 then Inl ValueError else Inr (replicate (nat count) 0))"

text \<open>
  \<^verbatim>\<open>
    i = 0
    for elem in xml_tree_root.iter(tag='y'):
        p[i] = float(elem.text)
        i += 1
  \<close>
  The right-hand side is evaluated first; storing at an index past the end of the array
  raises IndexError.
\<close>

fun fill :: "real list \<Rightarrow> nat \<Rightarrow> element list \<Rightarrow> py_error + real list" where
  "fill p i [] = Inr p"
| "fill p i (e # es) =
     and_then (float_of_text (el_text e)) (\<lambda>v.
       if i < length p then fill (p[i := v]) (Suc i) es else Inl IndexError)"

text \<open>
  \<^verbatim>\<open>np.linspace(start, stop, num)\<close>: \<open>num\<close> values, the value at index \<open>i\<close> being
  \<open>start + i * step\<close> with \<open>step = (stop - start) / (num - 1)\<close>, and the last one set to
  \<open>stop\<close>; a single value is \<open>start\<close>; a negative \<open>num\<close> raises ValueError.
\<close>

definition linspace_list :: "real \<Rightarrow> real \<Rightarrow> nat \<Rightarrow> real list" where
  "linspace_list start stop num =
     map (\<lambda>i. if 1 < num \<and> Suc i = num then stop
              else if 1 < num then start + real i * ((stop - start) / real (num - 1))
              else start + real i * (stop - start))
       [0..<num]"

definition np_linspace :: "real \<Rightarrow> real \<Rightarrow> int \<Rightarrow> py_error + real list" where
  "np_linspace start stop num =
     (if num < 0 then Inl ValueError else Inr (linspace_list start stop (nat num)))"

text \<open>
  \<^verbatim>\<open>
    for elem in xml_tree_root.iter(tag='Count'):
        count = int(elem.text)
    for elem in xml_tree_root.iter(tag='XStart'):
        start = float(elem.text)
    for elem in xml_tree_root.iter(tag='XStop'):
        stop = float(elem.text)
    for elem in xml_tree_root.iter(tag='XUnits'):
        xunits = elem.text
    for elem in xml_tree_root.iter(tag='YUnits'):
        yunits = elem.text
    for elem in xml_tree_root.iter(tag='y'):
        pwr = float(elem.text)
    p = np.zeros(count)
    i = 0
    for elem in xml_tree_root.iter(tag='y'):
        p[i] = float(elem.text)
        i += 1
    f = np.linspace(start, stop, count)
    return f, p, (xunits, yunits)
  \<close>
\<close>

definition read_specan_xml ::
  "element \<Rightarrow> py_error + (real list \<times> real list \<times> (string option \<times> string option))" where
  "read_specan_xml doc =
     and_then (last_read int_of_text (iter doc ''Count'') None) (\<lambda>count.
     and_then (last_read float_of_text (iter doc ''XStart'') None) (\<lambda>start.
     and_then (last_read float_of_text (iter doc ''XStop'') None) (\<lambda>stop.
     and_then (last_read text_itself (iter doc ''XUnits'') None) (\<lambda>xunits.
     and_then (last_read text_itself (iter doc ''YUnits'') None) (\<lambda>yunits.
     and_then (last_read float_of_text (iter doc ''y'') None) (\<lambda>pwr.
     and_then (bound count) (\<lambda>n.
     and_then (np_zeros n) (\<lambda>p0.
     and_then (fill p0 0 (iter doc ''y'')) (\<lambda>p.
     and_then (bound start) (\<lambda>s.
     and_then (bound stop) (\<lambda>e.
     and_then (np_linspace s e n) (\<lambda>f.
     and_then (bound xunits) (\<lambda>xu.
     and_then (bound yunits) (\<lambda>yu.
       Inr (f, p, (xu, yu))))))))))))))))"

text \<open>
  What a document declares: it has elements with the tag, the text of each of them can
  be read, and the last one reads as the value.
\<close>

definition declares :: "element \<Rightarrow> string \<Rightarrow> (string option \<Rightarrow> py_error + 'a) \<Rightarrow> 'a \<Rightarrow> bool" where
  "declares doc tg rd v =
     (iter doc tg \<noteq> []
      \<and> list_all (\<lambda>e. \<not> isl (rd (el_text e))) (iter doc tg)
      \<and> rd (el_text (last (iter doc tg))) = Inr v)"

text \<open>The texts of the \<open>y\<close> elements, read as floats, in document order.\<close>

definition y_readings :: "element \<Rightarrow> (py_error + real) list" where
  "y_readings doc = map (\<lambda>e. float_of_text (el_text e)) (iter doc ''y'')"

text \<open>
  A trace document with the elements the reader looks for: a count, the
  bounds 0 and 4, the units, and the \<open>y\<close> elements with the given texts.
\<close>

definition trace_doc :: "string \<Rightarrow> string list \<Rightarrow> element" where
  "trace_doc count ys =
     Element ''Trace'' None
       [Element ''Count'' (Some count) [],
        Element ''XStart'' (Some ''0'') [],
        Element ''XStop'' (Some ''4'') [],
        Element ''XUnits'' (Some ''Hz'') [],
        Element ''YUnits'' (Some ''dBm'') [],
        Element ''Points'' None (map (\<lambda>s. Element ''y'' (Some s) []) ys)]"

section \<open>read_result_csv\<close>

text \<open>
  The file is the list of its lines as \<^verbatim>\<open>readlines\<close> returns them, each with its line
  feed (the last line may lack it).  \<^verbatim>\<open>np.genfromtxt\<close> reads the same lines.
\<close>





















section \<open>Lemmas on splitting, replacing and reading numbers\<close>

lemma split_on_nonempty: "split_on sep s \<noteq> []"
  by (induction s) (auto split: list.splits)

lemma split_on_no_sep: "sep \<notin> set a \<Longrightarrow> split_on sep a = [a]"
  by (induction a) auto

lemma split_on_append: "sep \<notin> set a \<Longrightarrow> split_on sep (a @ sep # r) = a # split_on sep r"
  by (induction a) auto

lemma replace_nil: "old \<noteq> [] \<Longrightarrow> replace old new [] = []"
  by (subst replace.simps) simp

lemma replace_skip:
  "old \<noteq> [] \<Longrightarrow> hd old \<notin> set v \<Longrightarrow> replace old new (v @ r) = v @ replace old new r"
proof (induction v)
  case Nil
  then show ?case by simp
next
  case (Cons x v)
  then have np: "\<not> is_prefix old (x # v @ r)"
    by (cases old) (auto simp: is_prefix_def)
  have "replace old new (x # v @ r) = x # replace old new (v @ r)"
    using Cons.prems(1) np by (subst replace.simps) simp
  with Cons show ?case by simp
qed

lemma replace_whole: "old \<noteq> [] \<Longrightarrow> replace old new old = new"
  by (subst replace.simps) (simp add: is_prefix_def replace_nil)

lemma replace_suffix:
  "old \<noteq> [] \<Longrightarrow> hd old \<notin> set v \<Longrightarrow> replace old new (v @ old) = v @ new"
  by (simp add: replace_skip replace_whole)

lemma is_digit_not_space: "is_digit c \<Longrightarrow> \<not> is_space c"
  by (auto simp: is_digit_def is_space_def)

lemma is_digit_not_underscore: "is_digit c \<Longrightarrow> c \<noteq> CHR ''_''"
  by (auto simp: is_digit_def)

lemma lower_char_digit: "is_digit c \<Longrightarrow> lower_char c = c"
proof -
  have "\<forall>d \<in> set ''0123456789''. lower_char d = d"
    by (simp add: lower_char_def)
  then show "is_digit c \<Longrightarrow> lower_char c = c"
    unfolding is_digit_def by blast
qed

lemma strip_id:
  assumes "s \<noteq> []" "\<not> is_space (hd s)" "\<not> is_space (last s)"
  shows "strip s = s"
proof -
  have a: "dropWhile is_space s = s"
    using assms by (cases s) auto
  have "rev s \<noteq> []" "\<not> is_space (hd (rev s))"
    using assms by (simp_all add: hd_rev)
  then have b: "dropWhile is_space (rev s) = rev s"
    by (cases "rev s") auto
  show ?thesis by (simp add: strip_def a b)
qed

lemma drop_underscores_id:
  "CHR ''_'' \<notin> set s \<Longrightarrow> prev \<noteq> CHR ''_'' \<Longrightarrow> drop_underscores prev s = Some s"
  by (induction s arbitrary: prev) auto

lemma take_sign_digit: "s \<noteq> [] \<Longrightarrow> is_digit (hd s) \<Longrightarrow> take_sign s = (1, s)"
  by (cases s) (auto simp: take_sign_def is_digit_def)

lemma not_special_digit:
  assumes "s \<noteq> []" "is_digit (hd s)"
  shows "lower s \<notin> set [''inf'', ''infinity'', ''nan'']"
proof -
  obtain c r where s: "s = c # r" using assms by (cases s) auto
  with assms have "lower s = c # lower r" by (simp add: lower_def lower_char_digit)
  moreover have "c \<noteq> CHR ''i''" "c \<noteq> CHR ''n''"
    using assms s by (auto simp: is_digit_def)
  ultimately show ?thesis by auto
qed

lemma py_float_numeral:
  assumes ip: "ip \<noteq> []" "list_all is_digit ip"
    and fp: "list_all is_digit fp"
    and ex: "ex_txt \<noteq> []" "hd ex_txt = CHR ''e''" "\<not> is_space (last ex_txt)"
            "CHR ''_'' \<notin> set ex_txt" "parse_exponent ex_txt = Some ex"
  shows "py_float (numeral_text ip fp @ ex_txt) = Inr (decimal_value ip fp * pow10 ex)"
proof -
  define s where "s = numeral_text ip fp @ ex_txt"
  have hd_ip: "is_digit (hd ip)" using ip by (cases ip) auto
  have s_ne: "s \<noteq> []" and hd_s: "hd s = hd ip" and last_s: "last s = last ex_txt"
    using ip ex(1) by (auto simp: s_def numeral_text_def)
  have no_us: "CHR ''_'' \<notin> set s"
    using ip(2) fp ex(4) by (auto simp: s_def numeral_text_def list_all_iff dest: is_digit_not_underscore)
  have st: "strip s = s"
    using s_ne hd_s last_s hd_ip ex(3) by (intro strip_id) (auto dest: is_digit_not_space)
  have du: "drop_underscores (CHR 0x00) s = Some s"
    using no_us by (intro drop_underscores_id) auto
  have ts: "take_sign s = (1, s)"
    using s_ne hd_s hd_ip by (intro take_sign_digit) auto
  have ns: "lower s \<notin> set [''inf'', ''infinity'', ''nan'']"
    using s_ne hd_s hd_ip by (intro not_special_digit) auto
  have e_nd: "\<not> is_digit (hd ex_txt)" using ex(2) by (simp add: is_digit_def)
  have tw_ex: "takeWhile is_digit ex_txt = []" "dropWhile is_digit ex_txt = ex_txt"
    using ex(1) e_nd by (cases ex_txt; simp)+
  have all_ip: "\<And>x. x \<in> set ip \<Longrightarrow> is_digit x" and all_fp: "\<And>x. x \<in> set fp \<Longrightarrow> is_digit x"
    using ip(2) fp by (auto simp: list_all_iff)
  have head: "py_float s =
      (let ip' = takeWhile is_digit s;
           r1 = dropWhile is_digit s;
           has_dot = (r1 \<noteq> [] \<and> hd r1 = CHR ''.'');
           fp' = (if has_dot then takeWhile is_digit (tl r1) else []);
           r2 = (if has_dot then dropWhile is_digit (tl r1) else r1)
       in if ip' = [] \<and> fp' = [] then Inl ValueError
          else (case parse_exponent r2 of
                  None \<Rightarrow> Inl ValueError
                | Some ex \<Rightarrow>
                    Inr (real_of_int 1 * real (nat_of_digits (ip' @ fp'))
                           / 10 ^ length fp' * pow10 ex)))"
    unfolding py_float_def st du using ns by (simp add: ts)
  show ?thesis
  proof (cases "fp = []")
    case True
    then have s: "s = ip @ ex_txt" by (simp add: s_def numeral_text_def)
    have tw: "takeWhile is_digit s = ip" "dropWhile is_digit s = ex_txt"
      using all_ip tw_ex by (simp_all add: s takeWhile_append2 dropWhile_append2)
    have nd: "(ex_txt \<noteq> [] \<and> hd ex_txt = CHR ''.'') = False" using ex(2) by simp
    have "py_float s = Inr (decimal_value ip fp * pow10 ex)"
      unfolding head tw Let_def nd by (simp add: ex(5) ip(1) True decimal_value_def)
    then show ?thesis by (simp add: s_def)
  next
    case False
    then have s: "s = ip @ CHR ''.'' # fp @ ex_txt" by (simp add: s_def numeral_text_def)
    have dot_nd: "\<not> is_digit (CHR ''.'')" by (simp add: is_digit_def)
    have tw: "takeWhile is_digit s = ip" "dropWhile is_digit s = CHR ''.'' # fp @ ex_txt"
      using all_ip dot_nd by (simp_all add: s takeWhile_append2 dropWhile_append2)
    have tw2: "takeWhile is_digit (fp @ ex_txt) = fp" "dropWhile is_digit (fp @ ex_txt) = ex_txt"
      using all_fp tw_ex by (simp_all add: takeWhile_append2 dropWhile_append2)
    have "py_float s = Inr (decimal_value ip fp * pow10 ex)"
      unfolding head tw Let_def by (simp add: tw2 ex(5) ip(1) False decimal_value_def)
    then show ?thesis by (simp add: s_def)
  qed
qed

lemma numeral_text_chars:
  assumes "list_all is_digit ip" "list_all is_digit fp" "\<not> is_digit c" "c \<noteq> CHR ''.''"
  shows "c \<notin> set (numeral_text ip fp)"
  using assms by (auto simp: numeral_text_def list_all_iff)

lemma numeral_text_no_underscore:
  "list_all is_digit ip \<Longrightarrow> list_all is_digit fp \<Longrightarrow> CHR ''_'' \<notin> set (numeral_text ip fp)"
  by (rule numeral_text_chars) (simp_all add: is_digit_def)

lemma parse_exponent_e6: "parse_exponent ''e6'' = Some 6"
  by (simp add: parse_exponent_def take_sign_def is_digit_def nat_of_digits_def digit_val_def)

lemma parse_exponent_em6: "parse_exponent ''e-6'' = Some (- 6)"
  by (simp add: parse_exponent_def take_sign_def is_digit_def nat_of_digits_def digit_val_def)

lemma energy_field:
  assumes "ip \<noteq> []" "list_all is_digit ip" "list_all is_digit fp"
  shows "py_float (replace ''MeVu'' ''e6'' (numeral_text ip fp @ ''MeVu'')) = Inr (decimal_value ip fp * 10 ^ 6)"
proof -
  have "CHR ''M'' \<notin> set (numeral_text ip fp)"
    using assms by (intro numeral_text_chars) (simp_all add: is_digit_def)
  then have "replace ''MeVu'' ''e6'' (numeral_text ip fp @ ''MeVu'') = numeral_text ip fp @ ''e6''"
    by (intro replace_suffix) simp_all
  moreover have "py_float (numeral_text ip fp @ ''e6'') = Inr (decimal_value ip fp * pow10 6)"
    using assms parse_exponent_e6 by (intro py_float_numeral) (simp_all add: is_space_def)
  ultimately show ?thesis by (simp add: pow10_def)
qed

lemma current_field:
  assumes "ip \<noteq> []" "list_all is_digit ip" "list_all is_digit fp"
  shows "py_float (replace ''uA'' ''e-6'' (numeral_text ip fp @ ''uA'')) = Inr (decimal_value ip fp / 10 ^ 6)"
proof -
  have "CHR ''u'' \<notin> set (numeral_text ip fp)"
    using assms by (intro numeral_text_chars) (simp_all add: is_digit_def)
  then have "replace ''uA'' ''e-6'' (numeral_text ip fp @ ''uA'') = numeral_text ip fp @ ''e-6''"
    by (intro replace_suffix) simp_all
  moreover have "py_float (numeral_text ip fp @ ''e-6'') = Inr (decimal_value ip fp * pow10 (- 6))"
    using assms parse_exponent_em6 by (intro py_float_numeral) (simp_all add: is_space_def)
  ultimately show ?thesis by (simp add: pow10_def)
qed

lemma pattern_fields:
  assumes "CHR ''_'' \<notin> set desc" "CHR ''_'' \<notin> set a" "CHR ''_'' \<notin> set b"
    and "rest = [] \<or> hd rest = CHR ''_''"
  shows "\<exists>others. split_on (CHR ''_'') (desc @ ''_'' @ a @ ''_'' @ b @ rest) = desc # a # b # others"
proof (cases rest)
  case Nil
  then show ?thesis using assms by (simp add: split_on_append split_on_no_sep)
next
  case (Cons c r)
  with assms have "c = CHR ''_''" by simp
  with Cons show ?thesis using assms by (simp add: split_on_append)
qed

lemma parse_filename_fields:
  assumes "split_on (CHR ''_'') filename = d # a # b # others"
    and "py_float (replace ''MeVu'' ''e6'' a) = Inr en"
    and "py_float (replace ''uA'' ''e-6'' b) = Inr cu"
  shows "parse_filename filename = Inr (d, en, cu)"
  using assms by (simp add: parse_filename_def Let_def and_then_def item_def)

lemma parse_filename_iff:
  "parse_filename filename = Inr (d, en, cu) \<longleftrightarrow>
     (let fields = split_on (CHR ''_'') filename in
      3 \<le> length fields \<and> d = fields ! 0
      \<and> py_float (replace ''MeVu'' ''e6'' (fields ! 1)) = Inr en
      \<and> py_float (replace ''uA'' ''e-6'' (fields ! 2)) = Inr cu)"
  by (auto simp: parse_filename_def Let_def and_then_def item_def split: sum.splits)

section \<open>parse_filename: what it accepts\<close>

text \<open>
  C9 (as amended).  For a name \<open>desc_vMeVu_wuA\<close>, alone or followed by \<open>_\<close> and more,
  where \<open>desc\<close> has no underscore and \<open>v\<close>, \<open>w\<close> are unsigned decimal numerals,
  parse_filename returns the description, \<open>v\<close> times \<open>10^6\<close> and \<open>w\<close> over \<open>10^6\<close>.
  It raises when the name has fewer than three fields; in general it succeeds exactly when
  there are three fields and the second and third, after the textual replacement of
  \<open>MeVu\<close> by \<open>e6\<close> and of \<open>uA\<close> by \<open>e-6\<close>, read as floats.  The name of the source's
  docstring gives \<open>(58Ni26+, 374e6, 250e-6)\<close>.
\<close>

theorem parse_filename_pattern:
  "(CHR ''_'' \<notin> set desc \<and> ip1 \<noteq> [] \<and> list_all is_digit ip1 \<and> list_all is_digit fp1
      \<and> ip2 \<noteq> [] \<and> list_all is_digit ip2 \<and> list_all is_digit fp2
      \<and> (rest = [] \<or> hd rest = CHR ''_'')
    \<longrightarrow> parse_filename (desc @ ''_'' @ numeral_text ip1 fp1 @ ''MeVu'' @ ''_''
                          @ numeral_text ip2 fp2 @ ''uA'' @ rest)
        = Inr (desc, decimal_value ip1 fp1 * 10 ^ 6, decimal_value ip2 fp2 / 10 ^ 6))
   \<and> (length (split_on (CHR ''_'') filename) < 3 \<longrightarrow> isl (parse_filename filename))
   \<and> (parse_filename filename = Inr (d, en, cu) \<longleftrightarrow>
        (let fields = split_on (CHR ''_'') filename in
         3 \<le> length fields \<and> d = fields ! 0
         \<and> py_float (replace ''MeVu'' ''e6'' (fields ! 1)) = Inr en
         \<and> py_float (replace ''uA'' ''e-6'' (fields ! 2)) = Inr cu))
   \<and> parse_filename ''58Ni26+_374MeVu_250uA_pos_0_0.tiq'' = Inr (''58Ni26+'', 374 * 10 ^ 6, 250 / 10 ^ 6)"
proof (intro conjI impI)
  assume h: "CHR ''_'' \<notin> set desc \<and> ip1 \<noteq> [] \<and> list_all is_digit ip1 \<and> list_all is_digit fp1
      \<and> ip2 \<noteq> [] \<and> list_all is_digit ip2 \<and> list_all is_digit fp2
      \<and> (rest = [] \<or> hd rest = CHR ''_'')"
  let ?a = "numeral_text ip1 fp1 @ ''MeVu''" and ?b = "numeral_text ip2 fp2 @ ''uA''"
  have "CHR ''_'' \<notin> set (numeral_text ip1 fp1)" "CHR ''_'' \<notin> set (numeral_text ip2 fp2)"
    using h by (simp_all add: numeral_text_no_underscore)
  then have "CHR ''_'' \<notin> set ?a" "CHR ''_'' \<notin> set ?b" by simp_all
  with h obtain others where
    "split_on (CHR ''_'') (desc @ ''_'' @ ?a @ ''_'' @ ?b @ rest) = desc # ?a # ?b # others"
    using pattern_fields [of desc ?a ?b rest] by blast
  moreover have "py_float (replace ''MeVu'' ''e6'' ?a) = Inr (decimal_value ip1 fp1 * 10 ^ 6)"
    using h by (intro energy_field) simp_all
  moreover have "py_float (replace ''uA'' ''e-6'' ?b) = Inr (decimal_value ip2 fp2 / 10 ^ 6)"
    using h by (intro current_field) simp_all
  ultimately have "parse_filename (desc @ ''_'' @ ?a @ ''_'' @ ?b @ rest)
      = Inr (desc, decimal_value ip1 fp1 * 10 ^ 6, decimal_value ip2 fp2 / 10 ^ 6)"
    by (rule parse_filename_fields)
  then show "parse_filename (desc @ ''_'' @ numeral_text ip1 fp1 @ ''MeVu'' @ ''_''
                          @ numeral_text ip2 fp2 @ ''uA'' @ rest)
        = Inr (desc, decimal_value ip1 fp1 * 10 ^ 6, decimal_value ip2 fp2 / 10 ^ 6)"
    by simp
next
  assume short: "length (split_on (CHR ''_'') filename) < 3"
  show "isl (parse_filename filename)"
  proof (cases "parse_filename filename")
    case (Inl e)
    then show ?thesis by simp
  next
    case (Inr v)
    obtain d' en' cu' where "v = (d', en', cu')" by (cases v) auto
    with Inr have "3 \<le> length (split_on (CHR ''_'') filename)"
      by (simp add: parse_filename_iff Let_def)
    with short show ?thesis by simp
  qed
next
  show "parse_filename filename = Inr (d, en, cu) \<longleftrightarrow>
        (let fields = split_on (CHR ''_'') filename in
         3 \<le> length fields \<and> d = fields ! 0
         \<and> py_float (replace ''MeVu'' ''e6'' (fields ! 1)) = Inr en
         \<and> py_float (replace ''uA'' ''e-6'' (fields ! 2)) = Inr cu)"
    by (rule parse_filename_iff)
next
  show "parse_filename ''58Ni26+_374MeVu_250uA_pos_0_0.tiq'' = Inr (''58Ni26+'', 374 * 10 ^ 6, 250 / 10 ^ 6)"
    by (simp add: parse_filename_def Let_def and_then_def item_def is_prefix_def py_float_def strip_def
        is_space_def is_digit_def take_sign_def lower_def lower_char_def parse_exponent_def
        nat_of_digits_def digit_val_def pow10_def replace.simps)
qed

theorem parse_filename_pattern_witness:
  "CHR ''_'' \<notin> set ''58Ni26+'' \<and> ''374'' \<noteq> [] \<and> list_all is_digit ''374''
   \<and> list_all is_digit ''5'' \<and> ''250'' \<noteq> [] \<and> list_all is_digit ''250'' \<and> list_all is_digit []
   \<and> hd ''_pos_0_0.tiq'' = CHR ''_''
   \<and> parse_filename (''58Ni26+'' @ ''_'' @ numeral_text ''374'' ''5'' @ ''MeVu'' @ ''_''
                          @ numeral_text ''250'' [] @ ''uA'' @ ''_pos_0_0.tiq'')
        = Inr (''58Ni26+'', decimal_value ''374'' ''5'' * 10 ^ 6, decimal_value ''250'' [] / 10 ^ 6)
   \<and> length (split_on (CHR ''_'') ''58Ni26+_374MeVu'') < 3
   \<and> isl (parse_filename ''58Ni26+_374MeVu'')"
proof -
  have a: "CHR ''_'' \<notin> set ''58Ni26+''" by simp
  have b: "list_all is_digit ''374''" "list_all is_digit ''5''" "list_all is_digit ''250''"
    by (simp_all add: is_digit_def)
  have c: "length (split_on (CHR ''_'') ''58Ni26+_374MeVu'') < 3" by simp
  from parse_filename_pattern [of "''58Ni26+''" "''374''" "''5''" "''250''" "[]" "''_pos_0_0.tiq''"
         "''58Ni26+_374MeVu''"] a b c
  show ?thesis by simp
qed

text \<open>
  The units are not checked: where \<open>MeVu\<close> or \<open>uA\<close> is missing nothing is replaced and
  the bare number is read as it stands, so a name outside the pattern need not fail.
\<close>

theorem parse_filename_unchecked_units: "parse_filename ''a_1_2'' = Inr (''a'', 1, 2)"
  by (simp add: parse_filename_def Let_def and_then_def item_def is_prefix_def py_float_def strip_def
      is_space_def is_digit_def take_sign_def lower_def lower_char_def parse_exponent_def
      nat_of_digits_def digit_val_def pow10_def replace.simps)

section \<open>get_eng_notation: prefix, exponent and truncation\<close>













section \<open>The transform pair: inversion and shapes\<close>

lemma cis_eq_one_imp:
  assumes "cis t = 1"
  shows "\<exists>k::int. t = of_int k * 2 * pi"
proof -
  from assms have "cos t = 1" by (simp add: complex_eq_iff)
  then show ?thesis by (simp add: cos_one_2pi_int)
qed

lemma unity_root_sum:
  fixes d :: int and n :: nat
  assumes "d \<noteq> 0" "\<bar>d\<bar> < int n"
  shows "(\<Sum>k<n. cis (2 * pi * of_int d * real k / real n)) = 0"
proof -
  have n: "0 < n" using assms by linarith
  define w where "w = cis (2 * pi * of_int d / real n)"
  have w1: "w \<noteq> 1"
  proof
    assume "w = 1"
    then obtain k :: int where k: "2 * pi * of_int d / real n = of_int k * 2 * pi"
      unfolding w_def using cis_eq_one_imp by blast
    then have "2 * pi * (of_int d / real n) = 2 * pi * of_int k" by (simp add: mult_ac)
    then have "of_int d / real n = (of_int k :: real)" by (simp only: mult_cancel_left) simp
    then have "(of_int d :: real) = of_int k * real n" using n by (simp add: field_simps)
    also have "\<dots> = of_int (k * int n)" by simp
    finally have dk: "d = k * int n" using of_int_eq_iff by blast
    have "k \<noteq> 0" using dk assms(1) by auto
    then have "1 \<le> \<bar>k\<bar>" by linarith
    then have "int n \<le> \<bar>k\<bar> * int n" by (simp add: mult_le_cancel_right1)
    also have "\<dots> = \<bar>d\<bar>" by (simp add: dk abs_mult)
    finally show False using assms(2) by simp
  qed
  have wn: "w ^ n = 1"
  proof -
    have "w ^ n = cis (real n * (2 * pi * of_int d / real n))" by (simp add: w_def DeMoivre)
    also have "real n * (2 * pi * of_int d / real n) = 2 * pi * of_int d" using n by simp
    finally show ?thesis by simp
  qed
  have "(\<Sum>k<n. cis (2 * pi * of_int d * real k / real n)) = (\<Sum>k<n. w ^ k)"
    by (intro sum.cong refl) (simp add: w_def DeMoivre mult_ac)
  also have "\<dots> = (w ^ n - 1) / (w - 1)" using w1 by (subst geometric_sum) auto
  also have "\<dots> = 0" by (simp add: wn)
  finally show ?thesis .
qed

lemma unity_root_sum_nat:
  assumes "j < n" "m < n"
  shows "(\<Sum>k<n. cis (2 * pi * real j * real k / real n) * cis (- (2 * pi * real m * real k / real n)))
         = (if j = m then of_nat n else 0)"
proof (cases "j = m")
  case True
  then show ?thesis by (simp add: cis_mult)
next
  case False
  define d where "d = int j - int m"
  have d: "d \<noteq> 0" "\<bar>d\<bar> < int n" using False assms by (auto simp: d_def)
  have "(\<Sum>k<n. cis (2 * pi * real j * real k / real n) * cis (- (2 * pi * real m * real k / real n)))
      = (\<Sum>k<n. cis (2 * pi * of_int d * real k / real n))"
    by (intro sum.cong refl) (simp add: cis_mult d_def field_simps)
  also have "\<dots> = 0" using d by (rule unity_root_sum)
  finally show ?thesis using False by simp
qed

lemma length_dft [simp]: "length (dft a) = length a"
  by (simp add: dft_def)

lemma length_idft [simp]: "length (idft a) = length a"
  by (simp add: idft_def)

lemma dft_nth:
  "k < length a \<Longrightarrow>
     dft a ! k = (\<Sum>m<length a. a ! m * cis (- (2 * pi * real m * real k / real (length a))))"
  by (simp add: dft_def)

lemma idft_dft:
  assumes "a \<noteq> []"
  shows "idft (dft a) = a"
proof (rule nth_equalityI)
  show "length (idft (dft a)) = length a" by simp
next
  fix j assume "j < length (idft (dft a))"
  then have j: "j < length a" by simp
  define n where "n = length a"
  have n: "0 < n" using assms by (simp add: n_def)
  have "(\<Sum>k<n. dft a ! k * cis (2 * pi * real j * real k / real n))
      = (\<Sum>k<n. \<Sum>m<n. a ! m * cis (- (2 * pi * real m * real k / real n))
                             * cis (2 * pi * real j * real k / real n))"
    by (intro sum.cong refl) (simp add: dft_nth n_def sum_distrib_right)
  also have "\<dots> = (\<Sum>m<n. \<Sum>k<n. a ! m * cis (- (2 * pi * real m * real k / real n))
                             * cis (2 * pi * real j * real k / real n))"
    by (rule sum.swap)
  also have "\<dots> = (\<Sum>m<n. a ! m * (\<Sum>k<n. cis (2 * pi * real j * real k / real n)
                                         * cis (- (2 * pi * real m * real k / real n))))"
    by (intro sum.cong refl) (simp add: sum_distrib_left mult_ac)
  also have "\<dots> = (\<Sum>m<n. a ! m * (if j = m then of_nat n else 0))"
    using j by (intro sum.cong refl) (simp add: unity_root_sum_nat n_def)
  also have "\<dots> = (\<Sum>m<n. if m = j then a ! j * of_nat n else 0)"
    by (intro sum.cong refl) auto
  also have "\<dots> = a ! j * of_nat n"
    using j by (simp add: n_def)
  finally have "(\<Sum>k<n. dft a ! k * cis (2 * pi * real j * real k / real n)) / of_nat n = a ! j"
    using n by simp
  then show "idft (dft a) ! j = a ! j"
    using j by (simp add: idft_def n_def)
qed

lemma rows_of_Suc:
  "rows_of \<lparr>nrows = Suc r, ncols = c, cells = x\<rparr>
     = take c x # rows_of \<lparr>nrows = r, ncols = c, cells = drop c x\<rparr>"
proof -
  have "[0..<Suc r] = 0 # map Suc [0..<r]"
    by (simp add: upt_conv_Cons map_Suc_upt del: upt_Suc)
  then show ?thesis
    by (simp add: rows_of_def o_def add.commute del: upt_Suc)
qed

lemma concat_rows_of:
  "length x = r * c \<Longrightarrow> concat (rows_of \<lparr>nrows = r, ncols = c, cells = x\<rparr>) = x"
proof (induction r arbitrary: x)
  case 0
  then show ?case by (simp add: rows_of_def)
next
  case (Suc r)
  then have "length (drop c x) = r * c" by simp
  then have "concat (rows_of \<lparr>nrows = r, ncols = c, cells = drop c x\<rparr>) = drop c x"
    by (rule Suc.IH)
  then show ?case by (simp add: rows_of_Suc)
qed

lemma rows_of_length:
  assumes "length x = r * c" "row \<in> set (rows_of \<lparr>nrows = r, ncols = c, cells = x\<rparr>)"
  shows "length row = c"
proof -
  from assms(2) obtain i where i: "i < r" and row: "row = take c (drop (i * c) x)"
    by (auto simp: rows_of_def)
  have "Suc i * c \<le> r * c" using i by (intro mult_le_mono1) simp
  then have "c \<le> length x - i * c" using assms(1) by simp
  then show ?thesis by (simp add: row)
qed

lemma rows_of_concat:
  "\<forall>row \<in> set rs. length row = c \<Longrightarrow>
     rows_of \<lparr>nrows = length rs, ncols = c, cells = concat rs\<rparr> = rs"
proof (induction rs)
  case Nil
  then show ?case by (simp add: rows_of_def)
next
  case (Cons a rs)
  then show ?case by (simp add: rows_of_Suc)
qed

lemma length_rows_of [simp]: "length (rows_of a) = nrows a"
  by (simp add: rows_of_def)

lemma map_idft_dft:
  "\<forall>row \<in> set rs. row \<noteq> [] \<Longrightarrow> map idft (map dft rs) = rs"
  by (induction rs) (simp_all add: idft_dft)

lemma np_reshape_given:
  assumes "0 \<le> d0" "0 \<le> d1" "intp_ok d0" "intp_ok d1"
  shows "np_reshape x d0 d1 =
           (if d0 * d1 = int (length x) then Inr \<lparr>nrows = nat d0, ncols = nat d1, cells = x\<rparr>
            else Inl ValueError)"
  using assms by (simp add: np_reshape_def Let_def)

lemma forward_given:
  assumes "0 \<le> n" "0 \<le> l" "intp_ok n" "intp_ok l"
  shows "get_cplx_spectrogram x n l =
           (if n * l = int (length x) \<and> 1 \<le> l
            then Inr \<lparr>nrows = nat n, ncols = nat l,
                      cells = concat (map dft (rows_of \<lparr>nrows = nat n, ncols = nat l, cells = x\<rparr>))\<rparr>
            else Inl ValueError)"
  using assms
  by (auto simp: get_cplx_spectrogram_def np_reshape_given and_then_def np_fft_axis1_def)

lemma round_trip_ok:
  assumes n: "0 \<le> n" and l: "1 \<le> l" "intp_ok l"
    and len: "int (length x) = n * l" "int (length x) < 2 ^ 63"
  shows "round_trip x n l = Inr x"
proof -
  define r c where "r = nat n" and "c = nat l"
  have "length x = nat (n * l)" using len by simp
  also have "\<dots> = r * c" using n by (simp add: r_def c_def nat_mult_distrib)
  finally have rc1: "length x = r * c" .
  have rc2: "0 < c" using l by (simp add: c_def)
  note rc = rc1 rc2
  have "n \<le> n * l" using n l(1) by (simp add: mult_le_cancel_left1)
  then have okn: "intp_ok n" using n len by (simp add: intp_ok_def)
  define rs where "rs = rows_of \<lparr>nrows = r, ncols = c, cells = x\<rparr>"
  have rs_len: "\<forall>row \<in> set rs. length row = c"
    using rows_of_length [OF rc(1)] by (simp add: rs_def)
  have rs_n: "length rs = r" by (simp add: rs_def)
  have fwd: "get_cplx_spectrogram x n l = Inr \<lparr>nrows = r, ncols = c, cells = concat (map dft rs)\<rparr>"
    using n l len okn by (simp add: forward_given r_def c_def rs_def)
  have "\<forall>row \<in> set (map dft rs). length row = c" using rs_len by simp
  then have "rows_of \<lparr>nrows = length (map dft rs), ncols = c, cells = concat (map dft rs)\<rparr> = map dft rs"
    by (rule rows_of_concat)
  then have back_rows: "rows_of \<lparr>nrows = r, ncols = c, cells = concat (map dft rs)\<rparr> = map dft rs"
    by (simp add: rs_n)
  have "\<forall>row \<in> set rs. row \<noteq> []" using rs_len rc(2) by auto
  then have "map idft (map dft rs) = rs" by (rule map_idft_dft)
  then have cells_back: "concat (map idft (map dft rs)) = x"
    using concat_rows_of [OF rc(1)] by (simp add: rs_def)
  have ok1: "intp_ok 1" by (simp add: intp_ok_def)
  have oknl: "intp_ok (n * l)" using len n l by (simp add: intp_ok_def)
  have nl0: "0 \<le> n * l" using n l by simp
  have inv1: "np_ifft_axis1 \<lparr>nrows = r, ncols = c, cells = concat (map dft rs)\<rparr>
      = Inr \<lparr>nrows = r, ncols = c, cells = x\<rparr>"
    using rc(2) by (simp add: np_ifft_axis1_def back_rows cells_back del: map_map)
  have resh: "np_reshape x 1 (n * l) = Inr \<lparr>nrows = 1, ncols = nat (n * l), cells = x\<rparr>"
    using len by (simp add: np_reshape_given [OF _ nl0 ok1 oknl])
  have "nat (n * l) = length x" using len by simp
  then have row0: "first_row \<lparr>nrows = 1, ncols = nat (n * l), cells = x\<rparr> = Inr x"
    by (simp add: first_row_def)
  have "get_inv_cplx_spectrogram \<lparr>nrows = r, ncols = c, cells = concat (map dft rs)\<rparr> n l = Inr x"
    using row0 by (simp add: get_inv_cplx_spectrogram_def inv1 and_then_def resh)
  then show ?thesis by (simp add: round_trip_def fwd and_then_def)
qed

lemma forward_shape:
  assumes "0 \<le> n" "1 \<le> l" "intp_ok n" "intp_ok l" "int (length x) = n * l"
  shows "\<exists>zz. get_cplx_spectrogram x n l = Inr zz \<and> nrows zz = nat n \<and> ncols zz = nat l
              \<and> length (cells zz) = length x"
proof -
  define r c where "r = nat n" and "c = nat l"
  have "length x = nat (n * l)" using assms(5) by simp
  also have "\<dots> = r * c" using assms(1) by (simp add: r_def c_def nat_mult_distrib)
  finally have rc: "length x = r * c" .
  define rs where "rs = rows_of \<lparr>nrows = r, ncols = c, cells = x\<rparr>"
  have "map length (map dft rs) = map length rs" by simp
  then have "length (concat (map dft rs)) = length (concat rs)"
    by (simp only: length_concat)
  also have "concat rs = x" unfolding rs_def using rc by (rule concat_rows_of)
  finally have "length (concat (map dft rs)) = length x" .
  then show ?thesis
    using assms by (simp add: forward_given r_def c_def rs_def)
qed

lemma forward_unknown_rows:
  assumes "1 \<le> l" "intp_ok l" "int (length x) mod l = 0"
  shows "\<not> isl (get_cplx_spectrogram x (- 1) l)"
  using assms
  by (simp add: get_cplx_spectrogram_def np_reshape_def Let_def intp_ok_def and_then_def
      np_fft_axis1_def)

text \<open>
  C1 (as amended).  For a sample sequence of length \<open>n * l\<close> with at least one sample per
  frame (\<open>l \<ge> 1\<close>, \<open>n \<ge> 0\<close>, sizes within numpy's index range) the forward transform
  returns a matrix from which the inverse transform returns the sequence itself: in the
  exact arithmetic of the model the two are equal, so they agree within every tolerance.
\<close>

theorem spectrogram_round_trip:
  "0 \<le> n \<and> 1 \<le> l \<and> l < 2 ^ 63 \<and> int (length x) = n * l \<and> int (length x) < 2 ^ 63
   \<longrightarrow> (\<exists>zz. get_cplx_spectrogram x n l = Inr zz \<and> get_inv_cplx_spectrogram zz n l = Inr x)"
proof
  assume h: "0 \<le> n \<and> 1 \<le> l \<and> l < 2 ^ 63 \<and> int (length x) = n * l \<and> int (length x) < 2 ^ 63"
  then have "intp_ok l" by (simp add: intp_ok_def)
  with h have "round_trip x n l = Inr x" by (intro round_trip_ok) simp_all
  then show "\<exists>zz. get_cplx_spectrogram x n l = Inr zz \<and> get_inv_cplx_spectrogram zz n l = Inr x"
    by (cases "get_cplx_spectrogram x n l") (simp_all add: round_trip_def and_then_def)
qed

theorem spectrogram_round_trip_witness:
  "(0::int) \<le> 2 \<and> (1::int) \<le> 2 \<and> (2::int) < 2 ^ 63 \<and> int (length [1, \<i>, 2, 3 :: complex]) = 2 * 2
   \<and> int (length [1, \<i>, 2, 3 :: complex]) < 2 ^ 63
   \<and> (\<exists>zz. get_cplx_spectrogram [1, \<i>, 2, 3] 2 2 = Inr zz
          \<and> get_inv_cplx_spectrogram zz 2 2 = Inr [1, \<i>, 2, 3])"
  using spectrogram_round_trip [of 2 2 "[1, \<i>, 2, 3]"] by simp

text \<open>
  With no sample per frame the forward transform itself raises (numpy refuses a
  transform of zero data points), although the empty sequence has length \<open>n * 0\<close>.
\<close>

theorem spectrogram_round_trip_empty_frames:
  "int (length ([] :: complex list)) = 3 * 0
   \<and> \<not> (\<exists>zz. get_cplx_spectrogram [] 3 0 = Inr zz \<and> get_inv_cplx_spectrogram zz 3 0 = Inr [])"
  by (simp add: get_cplx_spectrogram_def np_reshape_def intp_ok_def and_then_def np_fft_axis1_def)

text \<open>
  C6 (as amended).  For frame counts and frame lengths that are not negative (and within
  numpy's index range) the forward transform succeeds exactly when the number of samples
  is \<open>nframes * lframes\<close> and \<open>lframes\<close> is at least 1, and then returns a matrix of
  that shape; in every other case it raises ValueError.  (With \<open>-1\<close> for the number of
  frames numpy works the number out, for every length that \<open>lframes\<close> divides.)
\<close>

theorem get_cplx_spectrogram_succeeds_iff:
  "(0 \<le> n \<and> 0 \<le> l \<and> n < 2 ^ 63 \<and> l < 2 ^ 63 \<longrightarrow>
      (int (length x) = n * l \<and> 1 \<le> l \<longrightarrow>
         (\<exists>zz. get_cplx_spectrogram x n l = Inr zz \<and> nrows zz = nat n \<and> ncols zz = nat l
               \<and> length (cells zz) = length x))
    \<and> (\<not> (int (length x) = n * l \<and> 1 \<le> l) \<longrightarrow> get_cplx_spectrogram x n l = Inl ValueError))
   \<and> (1 \<le> l \<and> l < 2 ^ 63 \<and> int (length x) mod l = 0
        \<longrightarrow> \<not> isl (get_cplx_spectrogram x (- 1) l))"
proof (intro conjI impI)
  assume h: "0 \<le> n \<and> 0 \<le> l \<and> n < 2 ^ 63 \<and> l < 2 ^ 63"
    and ok: "int (length x) = n * l \<and> 1 \<le> l"
  from h have "intp_ok n" "intp_ok l" by (simp_all add: intp_ok_def)
  with h ok show "\<exists>zz. get_cplx_spectrogram x n l = Inr zz \<and> nrows zz = nat n \<and> ncols zz = nat l
               \<and> length (cells zz) = length x"
    by (intro forward_shape) simp_all
next
  assume h: "0 \<le> n \<and> 0 \<le> l \<and> n < 2 ^ 63 \<and> l < 2 ^ 63"
    and bad: "\<not> (int (length x) = n * l \<and> 1 \<le> l)"
  from h have "intp_ok n" "intp_ok l" by (simp_all add: intp_ok_def)
  with h have "get_cplx_spectrogram x n l =
           (if n * l = int (length x) \<and> 1 \<le> l
            then Inr \<lparr>nrows = nat n, ncols = nat l,
                      cells = concat (map dft (rows_of \<lparr>nrows = nat n, ncols = nat l, cells = x\<rparr>))\<rparr>
            else Inl ValueError)"
    by (intro forward_given) simp_all
  with bad show "get_cplx_spectrogram x n l = Inl ValueError" by auto
next
  assume "1 \<le> l \<and> l < 2 ^ 63 \<and> int (length x) mod l = 0"
  then show "\<not> isl (get_cplx_spectrogram x (- 1) l)"
    by (intro forward_unknown_rows) (simp_all add: intp_ok_def)
qed

theorem get_cplx_spectrogram_succeeds_iff_witness:
  "(0::int) \<le> 2 \<and> (0::int) \<le> 2 \<and> (2::int) < 2 ^ 63
   \<and> int (length [1, 2, 3, 4 :: complex]) = 2 * 2 \<and> (1::int) \<le> 2
   \<and> (\<exists>zz. get_cplx_spectrogram [1, 2, 3, 4] 2 2 = Inr zz \<and> nrows zz = nat 2 \<and> ncols zz = nat 2
          \<and> length (cells zz) = length [1, 2, 3, 4 :: complex])
   \<and> \<not> (int (length [1, 2, 3 :: complex]) = 2 * 2 \<and> (1::int) \<le> 2)
   \<and> get_cplx_spectrogram [1, 2, 3] 2 2 = Inl ValueError
   \<and> int (length [1, 2, 3, 4 :: complex]) mod 2 = 0
   \<and> \<not> isl (get_cplx_spectrogram [1, 2, 3, 4] (- 1) 2)"
  using get_cplx_spectrogram_succeeds_iff [of 2 2 "[1, 2, 3, 4]"]
        get_cplx_spectrogram_succeeds_iff [of 2 2 "[1, 2, 3]"]
  by simp

text \<open>
  A grid of two frames of length 0 holds the empty sequence (\<open>0 = 2 * 0\<close>), yet the
  transform of rows without data points raises.
\<close>

theorem get_cplx_spectrogram_zero_length_frames:
  "int (length ([] :: complex list)) = 2 * 0 \<and> get_cplx_spectrogram [] 2 0 = Inl ValueError"
  by (simp add: get_cplx_spectrogram_def np_reshape_def intp_ok_def and_then_def np_fft_axis1_def)

section \<open>The synthetic signal and the phase shift\<close>



lemma length_add_arrays: "length y = length x \<Longrightarrow> length (add_arrays x y) = length x"
  by (simp add: add_arrays_def)

lemma length_harmonic [simp]: "length (harmonic f t i) = length t"
  by (simp add: harmonic_def)








lemma whole_turns_0 [simp]: "whole_turns 0"
  unfolding whole_turns_def by (rule exI [of _ 0]) simp

lemma whole_turns_add: "whole_turns a \<Longrightarrow> whole_turns b \<Longrightarrow> whole_turns (a + b)"
proof -
  assume "whole_turns a" "whole_turns b"
  then obtain j k :: int where "a = 2 * pi * of_int j" "b = 2 * pi * of_int k"
    unfolding whole_turns_def by blast
  then have "a + b = 2 * pi * of_int (j + k)" by (simp add: algebra_simps)
  then show ?thesis unfolding whole_turns_def by blast
qed

lemma cis_whole_turns: "whole_turns t \<Longrightarrow> cis (a + t) = cis a"
proof -
  assume "whole_turns t"
  then obtain k :: int where t: "t = 2 * pi * of_int k" unfolding whole_turns_def by blast
  have "cis (a + t) = cis a * cis t" by (simp only: cis_mult)
  also have "cis t = 1" unfolding t by (rule cis_multiple_2pi) simp
  finally show ?thesis by simp
qed

lemma ph_correct_turns: "whole_turns (ph_correct dd)"
proof -
  define fl where "fl = \<lfloor>(dd + pi) / (2 * pi)\<rfloor>"
  have base: "np_mod (dd + pi) (2 * pi) - pi - dd = 2 * pi * of_int (- fl)"
    by (simp add: np_mod_def fl_def algebra_simps)
  show ?thesis
  proof (cases "\<bar>dd\<bar> < pi")
    case True
    then show ?thesis by (simp add: ph_correct_def Let_def)
  next
    case far: False
    show ?thesis
    proof (cases "np_mod (dd + pi) (2 * pi) - pi = - pi \<and> dd > 0")
      case True
      then have "np_mod (dd + pi) (2 * pi) - pi - dd = - pi - dd" by simp
      with base have "pi - dd = 2 * pi * of_int (1 - fl)" by (simp add: algebra_simps)
      then have "whole_turns (pi - dd)" unfolding whole_turns_def by blast
      with True far show ?thesis by (simp add: ph_correct_def Let_def)
    next
      case False
      from base have "whole_turns (np_mod (dd + pi) (2 * pi) - pi - dd)"
        unfolding whole_turns_def by blast
      with False far show ?thesis by (auto simp: ph_correct_def Let_def)
    qed
  qed
qed

lemma cumsum_from_turns:
  "whole_turns acc \<Longrightarrow> \<forall>v \<in> set vs. whole_turns v \<Longrightarrow> \<forall>c \<in> set (cumsum_from acc vs). whole_turns c"
  by (induction vs arbitrary: acc) (auto intro: whole_turns_add)

lemma length_cumsum_from [simp]: "length (cumsum_from acc vs) = length vs"
  by (induction vs arbitrary: acc) simp_all

lemma length_np_unwrap [simp]: "length (np_unwrap p) = length p"
  by (cases p) (simp_all add: np_unwrap_def np_diff_def)

lemma np_unwrap_turns:
  assumes "i < length p"
  shows "\<exists>t. whole_turns t \<and> np_unwrap p ! i = p ! i + t"
proof (cases p)
  case Nil
  with assms show ?thesis by simp
next
  case (Cons p0 rest)
  define cs where "cs = cumsum_from 0 (map ph_correct (np_diff p))"
  have len: "length cs = length rest" by (simp add: cs_def np_diff_def Cons)
  have turns: "\<forall>c \<in> set cs. whole_turns c"
    unfolding cs_def by (rule cumsum_from_turns) (auto simp: ph_correct_turns)
  have up: "np_unwrap p = p0 # map2 (+) rest cs" by (simp add: np_unwrap_def Cons cs_def)
  show ?thesis
  proof (cases i)
    case 0
    then show ?thesis using up Cons whole_turns_0 by auto
  next
    case (Suc j)
    with assms Cons have j: "j < length rest" by simp
    then have "cs ! j \<in> set cs" using len by simp
    then have "whole_turns (cs ! j)" using turns by blast
    moreover have "np_unwrap p ! i = p ! i + cs ! j"
      using j len by (simp add: up [unfolded Cons] Suc Cons)
    ultimately show ?thesis by blast
  qed
qed

lemma polar_shift:
  assumes "whole_turns t"
  shows "of_real (cmod z) * exp (\<i> * of_real (Arg z + t + phase)) = z * cis phase"
proof -
  have "exp (\<i> * of_real (Arg z + t + phase)) = cis (Arg z + phase + t)"
    by (simp add: cis_conv_exp add_ac)
  also have "\<dots> = cis (Arg z + phase)" using assms by (rule cis_whole_turns)
  also have "\<dots> = cis (Arg z) * cis phase" by (simp add: cis_mult)
  finally have "of_real (cmod z) * exp (\<i> * of_real (Arg z + t + phase))
      = rcis (cmod z) (Arg z) * cis phase"
    by (simp add: rcis_def)
  then show ?thesis by (simp add: rcis_cmod_Arg)
qed

lemma shifted_spectrum:
  "map2 (\<lambda>m a. of_real m * exp (\<i> * of_real a)) (map cmod XX)
        (map (\<lambda>a. a + phase) (np_unwrap (map Arg XX)))
   = map (\<lambda>z. z * cis phase) XX"
proof (rule nth_equalityI)
  show "length (map2 (\<lambda>m a. of_real m * exp (\<i> * of_real a)) (map cmod XX)
        (map (\<lambda>a. a + phase) (np_unwrap (map Arg XX)))) = length (map (\<lambda>z. z * cis phase) XX)"
    by simp
next
  fix i
  assume "i < length (map2 (\<lambda>m a. of_real m * exp (\<i> * of_real a)) (map cmod XX)
        (map (\<lambda>a. a + phase) (np_unwrap (map Arg XX))))"
  then have i: "i < length XX" by simp
  then obtain t where t: "whole_turns t" "np_unwrap (map Arg XX) ! i = Arg (XX ! i) + t"
    using np_unwrap_turns [of i "map Arg XX"] by auto
  show "map2 (\<lambda>m a. of_real m * exp (\<i> * of_real a)) (map cmod XX)
        (map (\<lambda>a. a + phase) (np_unwrap (map Arg XX))) ! i = map (\<lambda>z. z * cis phase) XX ! i"
    using i t(2) polar_shift [OF t(1), of "XX ! i" phase] by simp
qed

lemma idft_scale: "idft (map (\<lambda>z. z * c) a) = map (\<lambda>z. z * c) (idft a)"
  by (simp add: idft_def sum_distrib_left sum_distrib_right mult_ac divide_inverse)

lemma dft_scale: "dft (map (\<lambda>z. z * c) a) = map (\<lambda>z. z * c) (dft a)"
  by (simp add: dft_def sum_distrib_left sum_distrib_right mult_ac)

lemma shift_phase_value:
  assumes "x \<noteq> []"
  shows "shift_phase x phase = Inr (map (\<lambda>v. v * cis phase) x)"
proof -
  have fwd: "np_fft x = Inr (dft x)" using assms by (simp add: np_fft_def)
  define YY where "YY = map (\<lambda>z. z * cis phase) (dft x)"
  have "length YY = length x" by (simp add: YY_def)
  then have "np_ifft YY = Inr (idft YY)" using assms by (simp add: np_ifft_def)
  also have "idft YY = map (\<lambda>z. z * cis phase) (idft (dft x))"
    unfolding YY_def by (rule idft_scale)
  also have "idft (dft x) = x" using assms by (rule idft_dft)
  finally have inv: "np_ifft YY = Inr (map (\<lambda>v. v * cis phase) x)" .
  show ?thesis
    unfolding shift_phase_def fwd and_then_def Let_def
    by (simp add: shifted_spectrum inv [unfolded YY_def])
qed

text \<open>
  C4 (as amended).  For a signal with at least one sample, shifting by phase 0 returns
  the signal, and shifting by any phase \<open>\<phi>\<close> multiplies every value of the spectrum by
  \<open>exp (i \<phi>)\<close>: the magnitude spectrum is the same and only the phase changes.  (Exact
  arithmetic; the unwrapping adds whole turns to the angles, which \<open>exp\<close> does not see.)
\<close>

theorem shift_phase_spectrum:
  "x \<noteq> [] \<longrightarrow>
     shift_phase x 0 = Inr x
   \<and> (\<exists>y X Y. shift_phase x phase = Inr y \<and> np_fft x = Inr X \<and> np_fft y = Inr Y
          \<and> map cmod Y = map cmod X \<and> Y = map (\<lambda>z. z * cis phase) X)"
proof (intro impI conjI)
  assume x: "x \<noteq> []"
  show "shift_phase x 0 = Inr x"
    using shift_phase_value [OF x, of 0] by (simp add: map_idI)
  define y where "y = map (\<lambda>v. v * cis phase) x"
  have y: "shift_phase x phase = Inr y" unfolding y_def using x by (rule shift_phase_value)
  have X: "np_fft x = Inr (dft x)" using x by (simp add: np_fft_def)
  have "y \<noteq> []" using x by (simp add: y_def)
  then have Y: "np_fft y = Inr (dft y)" by (simp add: np_fft_def)
  have sc: "dft y = map (\<lambda>z. z * cis phase) (dft x)" unfolding y_def by (rule dft_scale)
  then have "map cmod (dft y) = map cmod (dft x)" by (simp add: norm_mult o_def)
  with y X Y sc show "\<exists>y X Y. shift_phase x phase = Inr y \<and> np_fft x = Inr X \<and> np_fft y = Inr Y
          \<and> map cmod Y = map cmod X \<and> Y = map (\<lambda>z. z * cis phase) X"
    by blast
qed

theorem shift_phase_spectrum_witness:
  "[1, \<i>, - 1] \<noteq> ([] :: complex list)
   \<and> shift_phase [1, \<i>, - 1] 0 = Inr [1, \<i>, - 1]
   \<and> (\<exists>y X Y. shift_phase [1, \<i>, - 1] (pi / 2) = Inr y \<and> np_fft [1, \<i>, - 1] = Inr X
          \<and> np_fft y = Inr Y \<and> map cmod Y = map cmod X \<and> Y = map (\<lambda>z. z * cis (pi / 2)) X)"
  using shift_phase_spectrum [of "[1, \<i>, - 1]" "pi / 2"] by simp

text \<open>
  The empty signal is not returned: numpy refuses the transform of zero data points.
\<close>

theorem shift_phase_empty: "shift_phase [] 0 = Inl ValueError \<and> shift_phase [] 0 \<noteq> Inr []"
  by (simp add: shift_phase_def np_fft_def and_then_def)

section \<open>The XML trace reader\<close>

lemma last_read_all:
  assumes "list_all (\<lambda>e. \<not> isl (rd (el_text e))) es"
  shows "last_read rd es cur =
           Inr (if es = [] then cur else Some (projr (rd (el_text (last es)))))"
  using assms
proof (induction es arbitrary: cur)
  case Nil
  then show ?case by simp
next
  case (Cons e es)
  then obtain v where v: "rd (el_text e) = Inr v" by (cases "rd (el_text e)") auto
  from Cons.prems have "list_all (\<lambda>e. \<not> isl (rd (el_text e))) es" by simp
  then have "last_read rd es (Some v) =
           Inr (if es = [] then Some v else Some (projr (rd (el_text (last es)))))"
    by (rule Cons.IH)
  then show ?case by (simp add: and_then_def v)
qed

lemma declares_last_read:
  "declares doc tg rd v \<Longrightarrow> last_read rd (iter doc tg) None = Inr (Some v)"
  by (simp add: declares_def last_read_all)

lemma readings_all:
  assumes "map (\<lambda>e. float_of_text (el_text e)) es = map Inr vs"
  shows "list_all (\<lambda>e. \<not> isl (float_of_text (el_text e))) es"
  using assms
proof (induction es arbitrary: vs)
  case Nil
  then show ?case by simp
next
  case (Cons e es)
  then obtain v vs' where "vs = v # vs'" by (cases vs) auto
  with Cons show ?case by auto
qed

lemma fill_fits:
  assumes "map (\<lambda>e. float_of_text (el_text e)) es = map Inr vs" "i + length vs \<le> length p"
  shows "fill p i es = Inr (take i p @ vs @ drop (i + length vs) p)"
  using assms
proof (induction es arbitrary: p i vs)
  case Nil
  then show ?case by simp
next
  case (Cons e es)
  then obtain v vs' where vs: "vs = v # vs'" by (cases vs) auto
  with Cons.prems have e: "float_of_text (el_text e) = Inr v"
    and rest: "map (\<lambda>e. float_of_text (el_text e)) es = map Inr vs'"
    and len: "Suc i + length vs' \<le> length p"
    by simp_all
  have "fill (p[i := v]) (Suc i) es
      = Inr (take (Suc i) (p[i := v]) @ vs' @ drop (Suc i + length vs') (p[i := v]))"
    using rest len by (intro Cons.IH) simp_all
  also have "take (Suc i) (p[i := v]) = take i p @ [v]"
    using len by (simp add: take_Suc_conv_app_nth)
  also have "drop (Suc i + length vs') (p[i := v]) = drop (Suc i + length vs') p"
    by simp
  finally show ?case using len by (simp add: and_then_def e vs)
qed

lemma fill_overflows:
  assumes "map (\<lambda>e. float_of_text (el_text e)) es = map Inr vs"
    "length p < i + length vs" "i \<le> length p"
  shows "fill p i es = Inl IndexError"
  using assms
proof (induction es arbitrary: p i vs)
  case Nil
  then show ?case by simp
next
  case (Cons e es)
  then obtain v vs' where vs: "vs = v # vs'" by (cases vs) auto
  with Cons.prems have e: "float_of_text (el_text e) = Inr v"
    and rest: "map (\<lambda>e. float_of_text (el_text e)) es = map Inr vs'"
    by simp_all
  show ?case
  proof (cases "i < length p")
    case True
    have "fill (p[i := v]) (Suc i) es = Inl IndexError"
      using rest Cons.prems(2) True by (intro Cons.IH) (simp_all add: vs)
    with True show ?thesis by (simp add: and_then_def e)
  next
    case False
    then show ?thesis by (simp add: and_then_def e)
  qed
qed

lemma read_specan_xml_padded:
  assumes "declares doc ''Count'' int_of_text n"
    and "declares doc ''XStart'' float_of_text s"
    and "declares doc ''XStop'' float_of_text e"
    and "declares doc ''XUnits'' text_itself xu"
    and "declares doc ''YUnits'' text_itself yu"
    and ys: "y_readings doc = map Inr vs"
    and len: "int (length vs) \<le> n"
  shows "read_specan_xml doc
           = Inr (linspace_list s e (nat n), vs @ replicate (nat n - length vs) 0, (xu, yu))"
proof -
  from ys have ys': "map (\<lambda>e. float_of_text (el_text e)) (iter doc ''y'') = map Inr vs"
    by (simp add: y_readings_def)
  have pwr: "\<exists>w. last_read float_of_text (iter doc ''y'') None = Inr w"
    using last_read_all [OF readings_all [OF ys'], of None] by blast
  have n0: "0 \<le> n" using len by linarith
  have "0 + length vs \<le> length (replicate (nat n) (0::real))" using len by simp
  from fill_fits [OF ys' this]
  have f: "fill (replicate (nat n) 0) 0 (iter doc ''y'') = Inr (vs @ replicate (nat n - length vs) 0)"
    by simp
  from pwr obtain w where w: "last_read float_of_text (iter doc ''y'') None = Inr w" by blast
  show ?thesis
    using n0
    by (simp add: read_specan_xml_def declares_last_read [OF assms(1)] declares_last_read [OF assms(2)]
        declares_last_read [OF assms(3)] declares_last_read [OF assms(4)]
        declares_last_read [OF assms(5)] w and_then_def bound_def np_zeros_def f np_linspace_def)
qed

lemma read_specan_xml_too_many:
  assumes "declares doc ''Count'' int_of_text n"
    and "declares doc ''XStart'' float_of_text s"
    and "declares doc ''XStop'' float_of_text e"
    and "declares doc ''XUnits'' text_itself xu"
    and "declares doc ''YUnits'' text_itself yu"
    and ys: "y_readings doc = map Inr vs"
    and len: "0 \<le> n" "n < int (length vs)"
  shows "read_specan_xml doc = Inl IndexError"
proof -
  from ys have ys': "map (\<lambda>e. float_of_text (el_text e)) (iter doc ''y'') = map Inr vs"
    by (simp add: y_readings_def)
  have pwr: "\<exists>w. last_read float_of_text (iter doc ''y'') None = Inr w"
    using last_read_all [OF readings_all [OF ys'], of None] by blast
  have "length (replicate (nat n) (0::real)) < 0 + length vs" using len by simp
  from fill_overflows [OF ys' this]
  have f: "fill (replicate (nat n) 0) 0 (iter doc ''y'') = Inl IndexError"
    by simp
  from pwr obtain w where w: "last_read float_of_text (iter doc ''y'') None = Inr w" by blast
  show ?thesis
    using len(1)
    by (simp add: read_specan_xml_def declares_last_read [OF assms(1)] declares_last_read [OF assms(2)]
        declares_last_read [OF assms(3)] declares_last_read [OF assms(4)]
        declares_last_read [OF assms(5)] w and_then_def bound_def np_zeros_def f)
qed

lemma length_linspace_list [simp]: "length (linspace_list s e k) = k"
  by (simp add: linspace_list_def)

lemma linspace_list_nth:
  assumes "i < k" "1 < k"
  shows "linspace_list s e k ! i = s + real i * ((e - s) / real (k - 1))"
proof (cases "Suc i = k")
  case True
  then have "real i = real (k - 1)" by auto
  moreover have "real (k - 1) \<noteq> 0" using assms(2) by simp
  ultimately have "s + real i * ((e - s) / real (k - 1)) = e" by simp
  with True assms show ?thesis by (simp add: linspace_list_def)
next
  case False
  with assms show ?thesis by (simp add: linspace_list_def)
qed

lemma linspace_0_4_5: "linspace_list 0 4 5 = [0, 1, 2, 3, 4]"
proof -
  have "[0..<5] = [0, 1, 2, 3, 4]" by (simp add: upt_rec)
  then show ?thesis by (simp add: linspace_list_def)
qed

lemmas read_number_defs =
  py_int_def py_float_def strip_def is_space_def is_digit_def take_sign_def lower_def lower_char_def
  parse_exponent_def nat_of_digits_def digit_val_def pow10_def int_of_text_def float_of_text_def
  text_itself_def Let_def

lemma five_readings:
  "y_readings (trace_doc c [''-10.5'', ''-20'', ''-30.25'', ''1e1'', ''7''])
     = map Inr [- 10.5, - 20, - 30.25, 10, 7]"
  by (simp add: y_readings_def iter_def trace_doc_def read_number_defs)

lemma trace_doc_bounds:
  "declares (trace_doc c ys) ''XStart'' float_of_text 0"
  "declares (trace_doc c ys) ''XStop'' float_of_text 4"
  "declares (trace_doc c ys) ''XUnits'' text_itself (Some ''Hz'')"
  "declares (trace_doc c ys) ''YUnits'' text_itself (Some ''dBm'')"
  by (simp_all add: declares_def iter_def trace_doc_def o_def read_number_defs)

lemma trace_doc_count:
  "declares (trace_doc ''4'' ys) ''Count'' int_of_text 4"
  "declares (trace_doc ''5'' ys) ''Count'' int_of_text 5"
  "declares (trace_doc ''6'' ys) ''Count'' int_of_text 6"
  by (simp_all add: declares_def iter_def trace_doc_def o_def read_number_defs)

lemma five_of_five:
  "read_specan_xml (trace_doc ''5'' [''-10.5'', ''-20'', ''-30.25'', ''1e1'', ''7''])
     = Inr ([0, 1, 2, 3, 4], [- 10.5, - 20, - 30.25, 10, 7], (Some ''Hz'', Some ''dBm''))"
  using read_specan_xml_padded [OF trace_doc_count(2) trace_doc_bounds five_readings]
  by (simp add: linspace_0_4_5)

text \<open>
  C3.  When a document declares a count, the bounds and the units, every \<open>y\<close> element
  reads as a float and there are exactly \<open>Count\<close> of them, the reader returns the axis
  \<open>linspace(XStart, XStop, Count)\<close> (from \<open>XStart\<close> itself, in steps of
  \<open>(XStop - XStart) / (Count - 1)\<close>: absolute frequencies), the values of the \<open>y\<close>
  elements in document order, and the two unit texts.  With \<open>Count = 5\<close>, bounds 0 and 4
  and five values the axis is \<open>[0, 1, 2, 3, 4]\<close>.
\<close>

theorem read_specan_xml_well_formed:
  "(declares doc ''Count'' int_of_text n \<and> declares doc ''XStart'' float_of_text s
      \<and> declares doc ''XStop'' float_of_text e \<and> declares doc ''XUnits'' text_itself xu
      \<and> declares doc ''YUnits'' text_itself yu
      \<and> y_readings doc = map Inr vs \<and> int (length vs) = n
    \<longrightarrow> read_specan_xml doc = Inr (linspace_list s e (nat n), vs, (xu, yu))
        \<and> np_linspace s e n = Inr (linspace_list s e (nat n))
        \<and> length (linspace_list s e (nat n)) = length vs
        \<and> (\<forall>i<nat n. 1 < n \<longrightarrow>
              linspace_list s e (nat n) ! i = s + real i * ((e - s) / real (nat n - 1))))
   \<and> read_specan_xml (trace_doc ''5'' [''-10.5'', ''-20'', ''-30.25'', ''1e1'', ''7''])
        = Inr ([0, 1, 2, 3, 4], [- 10.5, - 20, - 30.25, 10, 7], (Some ''Hz'', Some ''dBm''))"
proof (intro conjI impI allI)
  assume h: "declares doc ''Count'' int_of_text n \<and> declares doc ''XStart'' float_of_text s
      \<and> declares doc ''XStop'' float_of_text e \<and> declares doc ''XUnits'' text_itself xu
      \<and> declares doc ''YUnits'' text_itself yu
      \<and> y_readings doc = map Inr vs \<and> int (length vs) = n"
  then have "read_specan_xml doc
      = Inr (linspace_list s e (nat n), vs @ replicate (nat n - length vs) 0, (xu, yu))"
    by (intro read_specan_xml_padded) simp_all
  moreover have "nat n - length vs = 0" using h by auto
  ultimately show "read_specan_xml doc = Inr (linspace_list s e (nat n), vs, (xu, yu))"
    by simp
  show "np_linspace s e n = Inr (linspace_list s e (nat n))"
    using h by (auto simp: np_linspace_def)
  show "length (linspace_list s e (nat n)) = length vs"
    using h by auto
next
  fix i
  assume "i < nat n" "1 < n"
  then show "linspace_list s e (nat n) ! i = s + real i * ((e - s) / real (nat n - 1))"
    by (intro linspace_list_nth) simp_all
next
  show "read_specan_xml (trace_doc ''5'' [''-10.5'', ''-20'', ''-30.25'', ''1e1'', ''7''])
        = Inr ([0, 1, 2, 3, 4], [- 10.5, - 20, - 30.25, 10, 7], (Some ''Hz'', Some ''dBm''))"
    by (rule five_of_five)
qed

theorem read_specan_xml_well_formed_witness:
  "declares (trace_doc ''5'' [''-10.5'', ''-20'', ''-30.25'', ''1e1'', ''7'']) ''Count'' int_of_text 5
   \<and> declares (trace_doc ''5'' [''-10.5'', ''-20'', ''-30.25'', ''1e1'', ''7'']) ''XStart'' float_of_text 0
   \<and> declares (trace_doc ''5'' [''-10.5'', ''-20'', ''-30.25'', ''1e1'', ''7'']) ''XStop'' float_of_text 4
   \<and> declares (trace_doc ''5'' [''-10.5'', ''-20'', ''-30.25'', ''1e1'', ''7'']) ''XUnits'' text_itself (Some ''Hz'')
   \<and> declares (trace_doc ''5'' [''-10.5'', ''-20'', ''-30.25'', ''1e1'', ''7'']) ''YUnits'' text_itself (Some ''dBm'')
   \<and> y_readings (trace_doc ''5'' [''-10.5'', ''-20'', ''-30.25'', ''1e1'', ''7''])
       = map Inr [- 10.5, - 20, - 30.25, 10, 7]
   \<and> int (length [- 10.5, - 20, - 30.25, 10, 7 :: real]) = 5
   \<and> read_specan_xml (trace_doc ''5'' [''-10.5'', ''-20'', ''-30.25'', ''1e1'', ''7''])
       = Inr (linspace_list 0 4 (nat 5), [- 10.5, - 20, - 30.25, 10, 7], (Some ''Hz'', Some ''dBm''))
   \<and> (1::int) < 5
   \<and> linspace_list 0 4 (nat 5) ! 3 = 0 + real 3 * ((4 - 0) / real (nat 5 - 1))"
proof -
  have len: "int (length [- 10.5, - 20, - 30.25, 10, 7 :: real]) = 5" by simp
  have i: "(3::nat) < nat 5" "(1::int) < 5" by simp_all
  from read_specan_xml_well_formed
         [of "trace_doc ''5'' [''-10.5'', ''-20'', ''-30.25'', ''1e1'', ''7'']" 5 0 4
             "Some ''Hz''" "Some ''dBm''" "[- 10.5, - 20, - 30.25, 10, 7]"]
       trace_doc_count(2) trace_doc_bounds five_readings len i
  show ?thesis by blast
qed

text \<open>
  C7 (as amended).  The count is not checked against the number of \<open>y\<close> elements.  With
  fewer values than \<open>Count\<close> the reader returns, without an error, the values followed by
  zeros up to \<open>Count\<close>; with more values than \<open>Count\<close> (and \<open>Count\<close> not negative) the
  store past the end of the array raises IndexError.
\<close>

theorem read_specan_xml_count_mismatch:
  "declares doc ''Count'' int_of_text n \<and> declares doc ''XStart'' float_of_text s
      \<and> declares doc ''XStop'' float_of_text e \<and> declares doc ''XUnits'' text_itself xu
      \<and> declares doc ''YUnits'' text_itself yu
      \<and> y_readings doc = map Inr vs
    \<longrightarrow> (int (length vs) < n \<longrightarrow>
           read_specan_xml doc
             = Inr (linspace_list s e (nat n), vs @ replicate (nat n - length vs) 0, (xu, yu)))
        \<and> (0 \<le> n \<and> n < int (length vs) \<longrightarrow> read_specan_xml doc = Inl IndexError)"
proof (intro conjI impI)
  assume h: "declares doc ''Count'' int_of_text n \<and> declares doc ''XStart'' float_of_text s
      \<and> declares doc ''XStop'' float_of_text e \<and> declares doc ''XUnits'' text_itself xu
      \<and> declares doc ''YUnits'' text_itself yu
      \<and> y_readings doc = map Inr vs"
  {
    assume "int (length vs) < n"
    with h show "read_specan_xml doc
             = Inr (linspace_list s e (nat n), vs @ replicate (nat n - length vs) 0, (xu, yu))"
      by (intro read_specan_xml_padded) simp_all
  }
  {
    assume "0 \<le> n \<and> n < int (length vs)"
    with h show "read_specan_xml doc = Inl IndexError"
      by (intro read_specan_xml_too_many [of doc n s e xu yu vs]) simp_all
  }
qed

theorem read_specan_xml_count_mismatch_witness:
  "declares (trace_doc ''6'' [''-10.5'', ''-20'', ''-30.25'', ''1e1'', ''7'']) ''Count'' int_of_text 6
   \<and> declares (trace_doc ''4'' [''-10.5'', ''-20'', ''-30.25'', ''1e1'', ''7'']) ''Count'' int_of_text 4
   \<and> y_readings (trace_doc ''6'' [''-10.5'', ''-20'', ''-30.25'', ''1e1'', ''7''])
       = map Inr [- 10.5, - 20, - 30.25, 10, 7]
   \<and> y_readings (trace_doc ''4'' [''-10.5'', ''-20'', ''-30.25'', ''1e1'', ''7''])
       = map Inr [- 10.5, - 20, - 30.25, 10, 7]
   \<and> int (length [- 10.5, - 20, - 30.25, 10, 7 :: real]) < 6
   \<and> read_specan_xml (trace_doc ''6'' [''-10.5'', ''-20'', ''-30.25'', ''1e1'', ''7''])
       = Inr (linspace_list 0 4 (nat 6),
              [- 10.5, - 20, - 30.25, 10, 7]
                @ replicate (nat 6 - length [- 10.5, - 20, - 30.25, 10, 7 :: real]) 0,
              (Some ''Hz'', Some ''dBm''))
   \<and> (0::int) \<le> 4 \<and> 4 < int (length [- 10.5, - 20, - 30.25, 10, 7 :: real])
   \<and> read_specan_xml (trace_doc ''4'' [''-10.5'', ''-20'', ''-30.25'', ''1e1'', ''7'']) = Inl IndexError"
proof -
  have len: "int (length [- 10.5, - 20, - 30.25, 10, 7 :: real]) < 6"
    "(0::int) \<le> 4 \<and> 4 < int (length [- 10.5, - 20, - 30.25, 10, 7 :: real])"
    by simp_all
  from read_specan_xml_count_mismatch
         [of "trace_doc ''6'' [''-10.5'', ''-20'', ''-30.25'', ''1e1'', ''7'']" 6 0 4
             "Some ''Hz''" "Some ''dBm''" "[- 10.5, - 20, - 30.25, 10, 7]"]
       read_specan_xml_count_mismatch
         [of "trace_doc ''4'' [''-10.5'', ''-20'', ''-30.25'', ''1e1'', ''7'']" 4 0 4
             "Some ''Hz''" "Some ''dBm''" "[- 10.5, - 20, - 30.25, 10, 7]"]
       trace_doc_count(1,3) trace_doc_bounds five_readings len
  show ?thesis by blast
qed

text \<open>
  A document that declares \<open>Count = 6\<close> and holds five values is read without any error:
  the sixth power value is the zero the array was created with.
\<close>

theorem read_specan_xml_six_declared_five_given:
  "read_specan_xml (trace_doc ''6'' [''-10.5'', ''-20'', ''-30.25'', ''1e1'', ''7''])
     = Inr (linspace_list 0 4 6, [- 10.5, - 20, - 30.25, 10, 7, 0], (Some ''Hz'', Some ''dBm''))"
  using read_specan_xml_padded [OF trace_doc_count(3) trace_doc_bounds five_readings]
  by (simp add: numeral_eq_Suc)

section \<open>The CSV result reader\<close>























section \<open>Properties of get_iq_object\<close>

text \<open>
  C10.  A file name whose extension, lower-cased, is none of the ten recognised ones
  gives \<open>None\<close> and raises nothing; so does a \<open>.dat\<close> or \<open>.xdat\<close> name whose header
  file name is missing (\<open>None\<close>, or the empty string, which Python also takes as false).
\<close>

theorem get_iq_object_none:
  "(lower (snd (splitext filename)) \<notin> recognized
      \<longrightarrow> get_iq_object cls filename header_filename = Inr None)
   \<and> (lower (snd (splitext filename)) \<in> {''.dat'', ''.xdat''} \<and> falsy header_filename
      \<longrightarrow> get_iq_object cls filename header_filename = Inr None)"
  by (auto simp: get_iq_object_def recognized_def assign_if_def and_then_def Let_def
        dat_block_def xdat_block_def falsy_def split: option.splits)

theorem get_iq_object_none_witness:
  "lower (snd (splitext ''trace.xyz'')) \<notin> recognized
   \<and> get_iq_object plain_classes ''trace.xyz'' (Some ''header.txt'') = Inr None
   \<and> lower (snd (splitext ''run.DAT'')) \<in> {''.dat'', ''.xdat''} \<and> falsy None
   \<and> get_iq_object plain_classes ''run.DAT'' None = Inr None"
proof -
  have a: "lower (snd (splitext ''trace.xyz'')) = ''.xyz''"
    by (simp add: splitext_def rfind_def Let_def lower_def lower_char_def)
  have b: "lower (snd (splitext ''run.DAT'')) = ''.dat''"
    by (simp add: splitext_def rfind_def Let_def lower_def lower_char_def)
  have c: "falsy None" by (simp add: falsy_def)
  from a have a': "lower (snd (splitext ''trace.xyz'')) \<notin> recognized"
    by (simp add: recognized_def)
  from get_iq_object_none [of "''trace.xyz''" plain_classes "Some ''header.txt''"]
       get_iq_object_none [of "''run.DAT''" plain_classes None] a' b c
  show ?thesis by simp
qed

end
